theory Spec2Isabelle
  imports Complex_Main "HOL-Library.Word" "HOL-Library.List_Lexorder" "HOL-Library.Multiset"
begin

section \<open>merge-to-md: the traversal and assembly pipeline of \<^verbatim>\<open>src/index.js\<close>\<close>

text \<open>
  The program is a Node.js command line tool. Its functions are embedded here one by
  one, under their own names. JavaScript strings are modelled as \<^typ>\<open>string\<close>
  (lists of characters), a \<^verbatim>\<open>Buffer\<close> as a list of bytes, \<^verbatim>\<open>null\<close> and
  \<^verbatim>\<open>undefined\<close> as \<^term>\<open>None\<close>, an exception as the left injection of a sum.
  What the program takes from its platform (the file system, \<^verbatim>\<open>RegExp\<close>,
  \<^verbatim>\<open>Number\<close>, \<^verbatim>\<open>localeCompare\<close>, the package \<^verbatim>\<open>isbinaryfile\<close>) is a
  field of the environment record \<open>env\<close> below: the program's own code never looks
  inside them.
\<close>

subsection \<open>Characters and the string methods the program calls\<close>

definition backtick :: char where
  "backtick = CHR 0x60"

definition backslash :: char where
  "backslash = CHR 0x5C"

definition newline :: char where
  "newline = CHR 0x0A"

abbreviation slash :: char where
  "slash \<equiv> CHR ''/''"

text \<open>\<^verbatim>\<open>s.split(c)\<close> for a separator of one character: never the empty list.\<close>

fun split_on :: "char \<Rightarrow> string \<Rightarrow> string list" where
  "split_on c [] = [[]]"
| "split_on c (x # xs) =
     (if x = c then [] # split_on c xs
      else (case split_on c xs of
              [] \<Rightarrow> [[x]]
            | p # ps \<Rightarrow> (x # p) # ps))"

text \<open>\<^verbatim>\<open>xs.join(sep)\<close>.\<close>

fun join_with :: "string \<Rightarrow> string list \<Rightarrow> string" where
  "join_with sep [] = []"
| "join_with sep [x] = x"
| "join_with sep (x # y # ys) = x @ sep @ join_with sep (y # ys)"

text \<open>\<^verbatim>\<open>s.startsWith(p)\<close>.\<close>

fun startsWith :: "string \<Rightarrow> string \<Rightarrow> bool" where
  "startsWith s [] = True"
| "startsWith [] (p # ps) = False"
| "startsWith (x # xs) (p # ps) = (x = p \<and> startsWith xs ps)"

text \<open>
  \<^verbatim>\<open>s.trim()\<close> and \<^verbatim>\<open>s.toLowerCase()\<close>, on the ASCII part of the character set:
  the white space characters are tab, line feed, vertical tab, form feed, carriage
  return and space, the letters with a lower case are A to Z.
\<close>

definition is_space :: "char \<Rightarrow> bool" where
  "is_space c = (c \<in> set [CHR 0x09, CHR 0x0A, CHR 0x0B, CHR 0x0C, CHR 0x0D, CHR 0x20])"

definition trim :: "string \<Rightarrow> string" where
  "trim s = rev (dropWhile is_space (rev (dropWhile is_space s)))"

definition lower_char :: "char \<Rightarrow> char" where
  "lower_char c =
     (let n = (of_char c :: nat) in if 65 \<le> n \<and> n \<le> 90 then char_of (n + 32) else c)"

definition toLowerCase :: "string \<Rightarrow> string" where
  "toLowerCase s = map lower_char s"

subsection \<open>\<^verbatim>\<open>fenceFor\<close>\<close>

text \<open>
  \<^verbatim>\<open>content.match(/`+/g)\<close>: the maximal runs of backticks of the content, from left
  to right. JavaScript answers \<^verbatim>\<open>null\<close> when there is none; the model answers the
  empty list, which \<^verbatim>\<open>match\<close> never returns otherwise.
\<close>

function match_backticks :: "string \<Rightarrow> string list" where
  "match_backticks [] = []"
| "match_backticks (c # cs) =
     (if c = backtick
      then (c # takeWhile (\<lambda>x. x = backtick) cs) #
             match_backticks (dropWhile (\<lambda>x. x = backtick) cs)
      else match_backticks cs)"
  by pat_completeness auto
termination
  by (relation "measure length") (auto simp: le_imp_less_Suc length_dropWhile_le)

text \<open>
  \<^verbatim>\<open>
  function fenceFor(content) {
    const matches = content.match(/`+/g);
    if (!matches) return '```';
    const maxRun = matches.reduce((m, s) => Math.max(m, s.length), 0);
    return '`'.repeat(maxRun + 1);
  }
  \<close>
\<close>

definition fenceFor :: "string \<Rightarrow> string" where
  "fenceFor content =
     (let matches = match_backticks content in
      if matches = [] then replicate 3 backtick
      else (let maxRun = foldl (\<lambda>m s. max m (length s)) 0 matches
            in replicate (maxRun + 1) backtick))"

subsection \<open>\<^verbatim>\<open>compileExcludeRegexes\<close> and \<^verbatim>\<open>matchesAnyRegex\<close>\<close>

text \<open>
  A compiled \<^verbatim>\<open>RegExp\<close> is used through \<^verbatim>\<open>r.test(str)\<close> only (the patterns carry
  no flag, so \<^verbatim>\<open>test\<close> keeps no state): it is modelled as that predicate. The
  constructor \<^verbatim>\<open>new RegExp(s)\<close> is a parameter: \<^term>\<open>None\<close> stands for the
  \<^verbatim>\<open>SyntaxError\<close> it throws on a pattern that does not compile.
\<close>

type_synonym regexp = "string \<Rightarrow> bool"

datatype js_error = SyntaxError

text \<open>
  The fallback of the \<^verbatim>\<open>catch\<close> block is
  \<^verbatim>\<open>s.replace(/[.*+?^${}()|[\\]\\\\]/g, "\\$&")\<close>.
  In the regular expression literal the class opened by the first bracket holds
  \<^verbatim>\<open>. * + ? ^ $ { } ( ) | [\<close> and the backslash (written \<^verbatim>\<open>\\\<close>), and the bracket
  that follows closes it. After the class come two more backslashes
  (\<^verbatim>\<open>\\\\\<close>) and a closing bracket, which is an ordinary character there. A match
  is therefore four characters long: one character of the class, two backslashes, one
  closing bracket. The replacement \<^verbatim>\<open>"\\$&"\<close> is a backslash followed by the match.
  The flag \<^verbatim>\<open>g\<close> replaces every match, scanning from the left and resuming behind
  each match.
\<close>

definition escape_class :: "char list" where
  "escape_class = ''.*+?^${}()|['' @ [backslash]"

fun replace_escape :: "string \<Rightarrow> string" where
  "replace_escape (c # b1 # b2 # r # rest) =
     (if c \<in> set escape_class \<and> b1 = backslash \<and> b2 = backslash \<and> r = CHR '']''
      then backslash # c # b1 # b2 # r # replace_escape rest
      else c # replace_escape (b1 # b2 # r # rest))"
| "replace_escape cs = cs"

text \<open>
  \<^verbatim>\<open>
  s => {
    try {
      return new RegExp(s);
    } catch (err) {
      // fallback: escape literal
      return new RegExp(s.replace(/[.*+?^${}()|[\\]\\\\]/g, "\\$&"));
    }
  }
  \<close>
  An exception of the second \<^verbatim>\<open>new RegExp\<close> is thrown inside the handler, so
  nothing catches it.
\<close>

definition compile_pattern :: "(string \<Rightarrow> regexp option) \<Rightarrow> string \<Rightarrow> js_error + regexp" where
  "compile_pattern RegExp_new s =
     (case RegExp_new s of
        Some r \<Rightarrow> Inr r
      | None \<Rightarrow>
          (case RegExp_new (replace_escape s) of
             Some r \<Rightarrow> Inr r
           | None \<Rightarrow> Inl SyntaxError))"

text \<open>\<^verbatim>\<open>xs.map(f)\<close> for a callback that may throw: the first exception ends the map.\<close>

fun map_throwing :: "('a \<Rightarrow> 'e + 'b) \<Rightarrow> 'a list \<Rightarrow> 'e + 'b list" where
  "map_throwing f [] = Inr []"
| "map_throwing f (x # xs) =
     (case f x of
        Inl e \<Rightarrow> Inl e
      | Inr y \<Rightarrow> (case map_throwing f xs of Inl e \<Rightarrow> Inl e | Inr ys \<Rightarrow> Inr (y # ys)))"

text \<open>
  \<^verbatim>\<open>
  function compileExcludeRegexes(excludeStr) {
    if (!excludeStr) return [];
    return excludeStr.split(',').map(s => s.trim()).filter(Boolean).map(s => { ... });
  }
  \<close>
\<close>

definition compileExcludeRegexes ::
  "(string \<Rightarrow> regexp option) \<Rightarrow> string option \<Rightarrow> js_error + regexp list" where
  "compileExcludeRegexes RegExp_new excludeStr =
     (case excludeStr of
        None \<Rightarrow> Inr []
      | Some str \<Rightarrow>
          if str = [] then Inr []
          else map_throwing (compile_pattern RegExp_new)
                 (filter (\<lambda>s. s \<noteq> []) (map trim (split_on CHR '','' str))))"

text \<open>\<^verbatim>\<open>regexes.some(r => r.test(str))\<close>\<close>

definition matchesAnyRegex :: "string \<Rightarrow> regexp list \<Rightarrow> bool" where
  "matchesAnyRegex str regexes = list_ex (\<lambda>r. r str) regexes"

subsection \<open>\<^verbatim>\<open>getLangForFile\<close>\<close>

text \<open>The table \<^verbatim>\<open>EXT_TO_LANG\<close>, entry by entry (no key occurs twice).\<close>

definition EXT_TO_LANG :: "(string \<times> string) list" where
  "EXT_TO_LANG = [
    (''.js'', ''javascript''), (''.mjs'', ''javascript''), (''.cjs'', ''javascript''),
    (''.ts'', ''typescript''), (''.tsx'', ''tsx''), (''.jsx'', ''jsx''),
    (''.py'', ''python''), (''.rb'', ''ruby''), (''.java'', ''java''), (''.c'', ''c''),
    (''.cpp'', ''cpp''), (''.cc'', ''cpp''), (''.h'', ''c''), (''.hpp'', ''cpp''),
    (''.go'', ''go''), (''.rs'', ''rust''), (''.php'', ''php''), (''.html'', ''html''),
    (''.css'', ''css''), (''.json'', ''json''), (''.md'', ''markdown''),
    (''.sh'', ''bash''), (''.bash'', ''bash''), (''.zsh'', ''bash''), (''.yml'', ''yaml''),
    (''.yaml'', ''yaml''), (''.xml'', ''xml''), (''.swift'', ''swift''),
    (''.kt'', ''kotlin''), (''.kts'', ''kotlin''), (''.r'', ''r''), (''.pl'', ''perl''),
    (''.sql'', ''sql''), (''.txt'', ''''), (''.text'', ''''), (''.cs'', ''csharp''),
    (''.vb'', ''vbnet''), (''.fs'', ''fsharp''), (''.scala'', ''scala''),
    (''.clj'', ''clojure''), (''.cljs'', ''clojure''), (''.ex'', ''elixir''),
    (''.exs'', ''elixir''), (''.erl'', ''erlang''), (''.hrl'', ''erlang''),
    (''.hs'', ''haskell''), (''.lhs'', ''haskell''), (''.ml'', ''ocaml''),
    (''.mli'', ''ocaml''), (''.lua'', ''lua''), (''.dart'', ''dart''),
    (''.m'', ''objective-c''), (''.mm'', ''objective-c''), (''.vim'', ''vim''),
    (''.vimrc'', ''vim''), (''.fish'', ''fish''), (''.ps1'', ''powershell''),
    (''.psm1'', ''powershell''), (''.dockerfile'', ''dockerfile''),
    (''.makefile'', ''makefile''), (''.mk'', ''makefile''), (''.cmake'', ''cmake''),
    (''.gradle'', ''gradle''), (''.groovy'', ''groovy''), (''.gvy'', ''groovy''),
    (''.properties'', ''properties''), (''.ini'', ''ini''), (''.toml'', ''toml''),
    (''.cfg'', ''ini''), (''.conf'', ''apache''), (''.htaccess'', ''apache''),
    (''.nginx'', ''nginx''), (''.proto'', ''protobuf''), (''.graphql'', ''graphql''),
    (''.gql'', ''graphql''), (''.scss'', ''scss''), (''.sass'', ''sass''),
    (''.less'', ''less''), (''.styl'', ''stylus''), (''.vue'', ''vue''),
    (''.svelte'', ''svelte''), (''.astro'', ''astro''), (''.jinja'', ''jinja2''),
    (''.jinja2'', ''jinja2''), (''.j2'', ''jinja2''), (''.hbs'', ''handlebars''),
    (''.mustache'', ''mustache''), (''.pug'', ''pug''), (''.jade'', ''pug''),
    (''.ejs'', ''ejs''), (''.erb'', ''erb''), (''.haml'', ''haml''), (''.tex'', ''latex''),
    (''.bib'', ''bibtex''), (''.diff'', ''diff''), (''.patch'', ''diff''),
    (''.log'', ''log''), (''.asm'', ''assembly''), (''.s'', ''assembly''),
    (''.nasm'', ''nasm''), (''.masm'', ''masm''), (''.sol'', ''solidity''),
    (''.move'', ''move''), (''.cairo'', ''cairo''), (''.vyper'', ''vyper''),
    (''.lean'', ''lean''), (''.agda'', ''agda''), (''.coq'', ''coq''),
    (''.v'', ''verilog''), (''.sv'', ''systemverilog''), (''.vhd'', ''vhdl''),
    (''.vhdl'', ''vhdl''), (''.tcl'', ''tcl''), (''.awk'', ''awk''), (''.sed'', ''sed''),
    (''.xquery'', ''xquery''), (''.xq'', ''xquery''), (''.sparql'', ''sparql''),
    (''.rq'', ''sparql''), (''.dockerfile.*'', ''dockerfile''), (''.env'', ''bash''),
    (''.envrc'', ''bash''), (''.bashrc'', ''bash''), (''.zshrc'', ''bash'')]"

text \<open>
  \<^verbatim>\<open>path.extname\<close> of Node.js, for POSIX paths. It scans the path from its end:
  trailing slashes are skipped, \<open>end\<close> is the end of the last path component,
  \<open>startDot\<close> the index of the last dot met in it, \<open>startPart\<close> where the component
  starts; \<open>preDotState\<close> stays \<open>0\<close> as long as no character has been seen before
  that dot, becomes \<open>-1\<close> when a character other than a dot comes before it, and \<open>1\<close>
  when a dot does. The scan stops at the slash in front of the last component. The
  counter of \<open>extname_loop\<close> is one more than the index \<open>i\<close> of Node's loop.
\<close>

record ext_state =
  startDot :: int
  startPart :: int
  end_ix :: int
  matchedSlash :: bool
  preDotState :: int

fun extname_loop :: "string \<Rightarrow> nat \<Rightarrow> ext_state \<Rightarrow> ext_state" where
  "extname_loop path 0 st = st"
| "extname_loop path (Suc i) st =
     (if path ! i = slash then
        (if \<not> matchedSlash st then st\<lparr>startPart := int i + 1\<rparr>
         else extname_loop path i st)
      else
        (let st1 = (if end_ix st = - 1 then st\<lparr>end_ix := int i + 1, matchedSlash := False\<rparr>
                    else st)
         in if path ! i = CHR ''.'' then
              (if startDot st1 = - 1 then extname_loop path i (st1\<lparr>startDot := int i\<rparr>)
               else if preDotState st1 \<noteq> 1 then extname_loop path i (st1\<lparr>preDotState := 1\<rparr>)
               else extname_loop path i st1)
            else if startDot st1 \<noteq> - 1 then extname_loop path i (st1\<lparr>preDotState := - 1\<rparr>)
            else extname_loop path i st1))"

definition extname :: "string \<Rightarrow> string" where
  "extname path =
     (let st = extname_loop path (length path)
                 \<lparr>startDot = - 1, startPart = 0, end_ix = - 1, matchedSlash = True,
                  preDotState = 0\<rparr>
      in if startDot st = - 1 \<or> end_ix st = - 1 \<or> preDotState st = 0 \<or>
            (preDotState st = 1 \<and> startDot st = end_ix st - 1 \<and> startDot st = startPart st + 1)
         then []
         else drop (nat (startDot st)) (take (nat (end_ix st)) path))"

text \<open>
  \<^verbatim>\<open>
  function getLangForFile(filePath) {
    const ext = path.extname(filePath).toLowerCase();
    return EXT_TO_LANG.hasOwnProperty(ext) ? EXT_TO_LANG[ext] : '';
  }
  \<close>
\<close>

definition getLangForFile :: "string \<Rightarrow> string" where
  "getLangForFile filePath =
     (let ext = toLowerCase (extname filePath)
      in case map_of EXT_TO_LANG ext of Some lang \<Rightarrow> lang | None \<Rightarrow> [])"

subsection \<open>The path functions of Node.js (POSIX)\<close>

text \<open>
  \<^verbatim>\<open>path.resolve\<close>, \<^verbatim>\<open>path.join\<close> and \<^verbatim>\<open>path.relative\<close> belong to the platform.
  They are modelled on the segments between slashes. Node's \<^verbatim>\<open>normalizeString\<close>
  drops empty segments and \<open>.\<close>, lets \<open>..\<close> remove the segment before it, and keeps a
  leading \<open>..\<close> only where the path may rise above its start (\<open>allowAboveRoot\<close>).
\<close>

fun normalize_segments :: "bool \<Rightarrow> string list \<Rightarrow> string list \<Rightarrow> string list" where
  "normalize_segments allowAboveRoot res [] = res"
| "normalize_segments allowAboveRoot res (s # ss) =
     (if s = [] \<or> s = ''.'' then normalize_segments allowAboveRoot res ss
      else if s = ''..'' then
        (if res \<noteq> [] \<and> last res \<noteq> ''..''
         then normalize_segments allowAboveRoot (butlast res) ss
         else if allowAboveRoot then normalize_segments allowAboveRoot (res @ [''..'']) ss
         else normalize_segments allowAboveRoot res ss)
      else normalize_segments allowAboveRoot (res @ [s]) ss)"

definition normalizeString :: "string \<Rightarrow> bool \<Rightarrow> string" where
  "normalizeString path allowAboveRoot =
     join_with ''/'' (normalize_segments allowAboveRoot [] (split_on slash path))"

text \<open>
  \<^verbatim>\<open>path.resolve(...args)\<close>: the arguments are taken from the right until an absolute
  one is met, the working directory comes last.
\<close>

fun resolve_collect :: "string list \<Rightarrow> string \<Rightarrow> bool \<Rightarrow> string \<times> bool" where
  "resolve_collect [] resolvedPath resolvedAbsolute = (resolvedPath, resolvedAbsolute)"
| "resolve_collect (p # ps) resolvedPath resolvedAbsolute =
     (if resolvedAbsolute then (resolvedPath, resolvedAbsolute)
      else if p = [] then resolve_collect ps resolvedPath resolvedAbsolute
      else resolve_collect ps (p @ ''/'' @ resolvedPath) (hd p = slash))"

definition path_resolve :: "string \<Rightarrow> string list \<Rightarrow> string" where
  "path_resolve cwd args =
     (case resolve_collect (rev args @ [cwd]) [] False of
        (resolvedPath, resolvedAbsolute) \<Rightarrow>
          (let n = normalizeString resolvedPath (\<not> resolvedAbsolute)
           in if resolvedAbsolute then slash # n else if n \<noteq> [] then n else ''.''))"

definition path_normalize :: "string \<Rightarrow> string" where
  "path_normalize path =
     (if path = [] then ''.''
      else
        (let isAbsolute = (hd path = slash);
             trailingSeparator = (last path = slash);
             p = normalizeString path (\<not> isAbsolute)
         in if p = [] then (if isAbsolute then ''/'' else if trailingSeparator then ''./'' else ''.'')
            else (let q = (if trailingSeparator then p @ ''/'' else p)
                  in if isAbsolute then slash # q else q)))"

definition path_join :: "string list \<Rightarrow> string" where
  "path_join args =
     (let joined = filter (\<lambda>a. a \<noteq> []) args
      in if joined = [] then ''.'' else path_normalize (join_with ''/'' joined))"

text \<open>
  \<^verbatim>\<open>path.relative(from, to)\<close>: both paths are resolved, the segments they share at the
  front are dropped, every segment that is left of \<open>from\<close> becomes \<open>..\<close>, and what is
  left of \<open>to\<close> follows.
\<close>

fun drop_common :: "string list \<Rightarrow> string list \<Rightarrow> string list \<times> string list" where
  "drop_common (x # xs) (y # ys) = (if x = y then drop_common xs ys else (x # xs, y # ys))"
| "drop_common xs ys = (xs, ys)"

definition path_segments :: "string \<Rightarrow> string list" where
  "path_segments p = filter (\<lambda>s. s \<noteq> []) (split_on slash p)"

definition path_relative :: "string \<Rightarrow> string \<Rightarrow> string \<Rightarrow> string" where
  "path_relative cwd from to =
     (if from = to then []
      else
        (let f = path_resolve cwd [from]; t = path_resolve cwd [to]
         in if f = t then []
            else (case drop_common (path_segments f) (path_segments t) of
                    (fs, ts) \<Rightarrow> join_with ''/'' (replicate (length fs) ''..'' @ ts))))"

subsection \<open>The platform\<close>

text \<open>
  A \<^verbatim>\<open>Dirent\<close> of \<^verbatim>\<open>readdir(dir, { withFileTypes: true })\<close> gives the name of an
  entry and the type of the entry itself (a symbolic link is reported as such);
  \<^verbatim>\<open>stat\<close> follows links and gives the type of what the path leads to.
\<close>

datatype file_type = Directory | RegularFile | SymbolicLink | OtherType

record dirent =
  d_name :: string
  d_type :: file_type

text \<open>
  A JavaScript number, as far as the depth test needs it: \<^verbatim>\<open>NaN\<close>, the two
  infinities, and the finite values (every double is a rational).
\<close>

datatype jsnum = NaN | PosInfinity | NegInfinity | Finite rat

text \<open>
  The environment of a run. A file system operation that fails (it rejects, and the
  program catches the rejection) is \<^term>\<open>None\<close>. \<open>localeCompare_key\<close> is the
  collation of \<^verbatim>\<open>a.localeCompare(b, undefined, { sensitivity: "base" })\<close>: the call
  compares the keys of the two names, it answers \<open>0\<close> when they are equal.
  \<open>writeFile\<close> tells whether writing the given content to the given path succeeds.
\<close>

record env =
  readdir :: "string \<Rightarrow> dirent list option"
  stat :: "string \<Rightarrow> file_type option"
  realpath :: "string \<Rightarrow> string option"
  readFile :: "string \<Rightarrow> 8 word list option"
  writeFile :: "string \<Rightarrow> string \<Rightarrow> bool"
  cwd :: string
  RegExp_new :: "string \<Rightarrow> regexp option"
  Number :: "string \<Rightarrow> jsnum"
  localeCompare_key :: "string \<Rightarrow> nat list"
  isBinaryFileSync :: "8 word list \<Rightarrow> nat \<Rightarrow> bool"
  toString_utf8 :: "8 word list \<Rightarrow> string"

subsection \<open>\<^verbatim>\<open>collectFiles\<close>\<close>

record file_ref =
  full :: string
  rel :: string

text \<open>\<^verbatim>\<open>currentDepth > maxDepth\<close>; a comparison with \<^verbatim>\<open>NaN\<close> is false.\<close>

fun depth_exceeds :: "nat \<Rightarrow> jsnum \<Rightarrow> bool" where
  "depth_exceeds currentDepth NaN = False"
| "depth_exceeds currentDepth PosInfinity = False"
| "depth_exceeds currentDepth NegInfinity = True"
| "depth_exceeds currentDepth (Finite q) = (q < of_nat currentDepth)"

text \<open>
  \<^verbatim>\<open>
  async function walk(dir, currentDepth = 0) {
    if (currentDepth > maxDepth) { return; }
    let entries;
    try { entries = await fs.promises.readdir(dir, { withFileTypes: true }); }
    catch (err) { console.error(...); return; }
    const sortedEntries = entries.slice()
        .sort((a, b) => a.name.localeCompare(b.name, undefined, { sensitivity: "base" }));
    for (const ent of sortedEntries) {
      const full = path.join(dir, ent.name);
      const rel = path.relative(resolvedRoot, full).split(path.sep).join('/');
      if (matchesAnyRegex(rel, excludeRegexes) || matchesAnyRegex(full, excludeRegexes)) {
        continue;
      }
      if (ent.isDirectory()) {
        await walk(full, currentDepth + 1);
      } else if (ent.isFile()) {
        files.push({ full, rel });
      } else if (ent.isSymbolicLink() && followSymlinks) {
        try {
          const stats = await fs.promises.stat(full);
          if (stats.isDirectory()) {
            const resolvedPath = await fs.promises.realpath(full);
            if (!resolvedPath.startsWith(resolvedRoot)) { console.warn(...); continue; }
            await walk(full, currentDepth + 1);
          } else if (stats.isFile()) {
            files.push({ full, rel });
          }
        } catch (err) { console.error(...); continue; }
      }
    }
  }
  \<close>
  \<open>walk\<close> calls itself, and nothing in it bounds the nesting of the calls when
  \<open>maxDepth\<close> is \<^verbatim>\<open>Infinity\<close>: the model takes fuel, the number of nested calls it may
  make, and answers \<^term>\<open>None\<close> when the fuel runs out. \<open>walk_entries\<close> is the
  \<^verbatim>\<open>for\<close> loop. The array \<open>files\<close>, which the closure shares, is passed in and
  returned. \<^verbatim>\<open>Array.prototype.sort\<close> is stable, as is \<^const>\<open>sort_key\<close>. The messages
  written to the console are not part of the model.
\<close>

function (sequential) walk ::
    "nat \<Rightarrow> env \<Rightarrow> string \<Rightarrow> regexp list \<Rightarrow> jsnum \<Rightarrow> bool \<Rightarrow> string \<Rightarrow> nat \<Rightarrow> file_ref list
      \<Rightarrow> file_ref list option"
  and walk_entries ::
    "nat \<Rightarrow> env \<Rightarrow> string \<Rightarrow> regexp list \<Rightarrow> jsnum \<Rightarrow> bool \<Rightarrow> string \<Rightarrow> nat \<Rightarrow> dirent list
      \<Rightarrow> file_ref list \<Rightarrow> file_ref list option"
where
  "walk 0 E resolvedRoot excludeRegexes maxDepth followSymlinks dir currentDepth files = None"
| "walk (Suc n) E resolvedRoot excludeRegexes maxDepth followSymlinks dir currentDepth files =
     (if depth_exceeds currentDepth maxDepth then Some files
      else
        (case readdir E dir of
           None \<Rightarrow> Some files
         | Some entries \<Rightarrow>
             walk_entries n E resolvedRoot excludeRegexes maxDepth followSymlinks dir currentDepth
               (sort_key (\<lambda>ent. localeCompare_key E (d_name ent)) entries) files))"
| "walk_entries n E resolvedRoot excludeRegexes maxDepth followSymlinks dir currentDepth []
     files = Some files"
| "walk_entries n E resolvedRoot excludeRegexes maxDepth followSymlinks dir currentDepth
     (ent # ents) files =
     (let full_p = path_join [dir, d_name ent];
          rel_p = join_with ''/''
                    (split_on slash (path_relative (cwd E) resolvedRoot full_p))
      in
        if matchesAnyRegex rel_p excludeRegexes \<or> matchesAnyRegex full_p excludeRegexes then
          walk_entries n E resolvedRoot excludeRegexes maxDepth followSymlinks dir currentDepth
            ents files
        else if d_type ent = Directory then
          (case walk n E resolvedRoot excludeRegexes maxDepth followSymlinks full_p
                  (currentDepth + 1) files of
             None \<Rightarrow> None
           | Some files1 \<Rightarrow>
               walk_entries n E resolvedRoot excludeRegexes maxDepth followSymlinks dir
                 currentDepth ents files1)
        else if d_type ent = RegularFile then
          walk_entries n E resolvedRoot excludeRegexes maxDepth followSymlinks dir currentDepth
            ents (files @ [\<lparr>full = full_p, rel = rel_p\<rparr>])
        else if d_type ent = SymbolicLink \<and> followSymlinks then
          (case stat E full_p of
             None \<Rightarrow>
               walk_entries n E resolvedRoot excludeRegexes maxDepth followSymlinks dir
                 currentDepth ents files
           | Some stats \<Rightarrow>
               if stats = Directory then
                 (case realpath E full_p of
                    None \<Rightarrow>
                      walk_entries n E resolvedRoot excludeRegexes maxDepth followSymlinks dir
                        currentDepth ents files
                  | Some resolvedPath \<Rightarrow>
                      if \<not> startsWith resolvedPath resolvedRoot then
                        walk_entries n E resolvedRoot excludeRegexes maxDepth followSymlinks dir
                          currentDepth ents files
                      else
                        (case walk n E resolvedRoot excludeRegexes maxDepth followSymlinks full_p
                                (currentDepth + 1) files of
                           None \<Rightarrow> None
                         | Some files1 \<Rightarrow>
                             walk_entries n E resolvedRoot excludeRegexes maxDepth followSymlinks
                               dir currentDepth ents files1))
               else if stats = RegularFile then
                 walk_entries n E resolvedRoot excludeRegexes maxDepth followSymlinks dir
                   currentDepth ents (files @ [\<lparr>full = full_p, rel = rel_p\<rparr>])
               else
                 walk_entries n E resolvedRoot excludeRegexes maxDepth followSymlinks dir
                   currentDepth ents files)
        else
          walk_entries n E resolvedRoot excludeRegexes maxDepth followSymlinks dir currentDepth
            ents files)"
  by pat_completeness auto
termination
  by (relation "inv_image (less_than <*lex*> less_than)
        (\<lambda>x. case x of
           Inl (n, E, rr, rs, md, fl, dir, d, files) \<Rightarrow> (n, 0)
         | Inr (n, E, rr, rs, md, fl, dir, d, ents, files) \<Rightarrow> (n, Suc (length ents)))")
     auto

text \<open>
  \<^verbatim>\<open>
  async function collectFiles(root, excludeRegexes, maxDepth = Infinity, followSymlinks = false) {
    const files = [];
    const resolvedRoot = path.resolve(root);
    ...
    await walk(resolvedRoot);
    return files;
  }
  \<close>
  The parameter \<open>root\<close> is written \<open>root_dir\<close> (\<open>root\<close> is a constant of the logic).
\<close>

definition collectFiles ::
  "nat \<Rightarrow> env \<Rightarrow> string \<Rightarrow> regexp list \<Rightarrow> jsnum \<Rightarrow> bool \<Rightarrow> file_ref list option" where
  "collectFiles fuel E root_dir excludeRegexes maxDepth followSymlinks =
     (let resolvedRoot = path_resolve (cwd E) [root_dir]
      in walk fuel E resolvedRoot excludeRegexes maxDepth followSymlinks resolvedRoot 0 [])"

subsection \<open>\<^verbatim>\<open>isLikelyBinary\<close> and \<^verbatim>\<open>buildContext\<close>\<close>

text \<open>
  \<^verbatim>\<open>
  function isLikelyBinary(buffer) {
    // simple heuristic: if there are NUL bytes, treat as binary
    for (let i = 0; i < buffer.length; i++) {
      if (buffer[i] === 0) return true;
    }
    return false;
  }
  \<close>
  No function of the program calls \<open>isLikelyBinary\<close>.
\<close>

fun isLikelyBinary :: "8 word list \<Rightarrow> bool" where
  "isLikelyBinary [] = False"
| "isLikelyBinary (b # bs) = (if b = 0 then True else isLikelyBinary bs)"

definition separator_line :: string where
  "separator_line = replicate 48 CHR ''=''"

text \<open>
  \<^verbatim>\<open>
  async function buildContext(files, root) {
    let out = '';
    for (const f of files) {
      let buffer;
      try { buffer = await fs.promises.readFile(f.full); }
      catch (err) { console.error(...); continue; }
      if(isBinaryFileSync(buffer, buffer.length)) { continue; }
      const content = buffer.toString('utf8');
      out += '\n\n';
      out += '================================================\n';
      out += `FILE: ${path.resolve(f.full)}\n`;
      out += '================================================\n\n';
      const lang = getLangForFile(f.full);
      const fence = fenceFor(content);
      const fenceStart = lang ? `${fence}${lang}\n` : `${fence}\n`;
      const fenceEnd = `\n${fence}\n\n`;
      out += fenceStart + content + fenceEnd;
    }
    return out;
  }
  \<close>
  \<open>isBinaryFileSync\<close> is imported from the package \<^verbatim>\<open>isbinaryfile\<close>.
  \<open>buildContext_loop\<close> is the \<^verbatim>\<open>for\<close> loop, with the variable \<open>out\<close> passed in
  and returned.
\<close>

fun buildContext_loop :: "env \<Rightarrow> file_ref list \<Rightarrow> string \<Rightarrow> string" where
  "buildContext_loop E [] out = out"
| "buildContext_loop E (f # fs) out =
     (case readFile E (full f) of
        None \<Rightarrow> buildContext_loop E fs out
      | Some buffer \<Rightarrow>
          if isBinaryFileSync E buffer (length buffer) then buildContext_loop E fs out
          else
            (let content = toString_utf8 E buffer;
                 out1 = out @ [newline, newline];
                 out2 = out1 @ separator_line @ [newline];
                 out3 = out2 @ ''FILE: '' @ path_resolve (cwd E) [full f] @ [newline];
                 out4 = out3 @ separator_line @ [newline, newline];
                 lang = getLangForFile (full f);
                 fence = fenceFor content;
                 fenceStart = (if lang \<noteq> [] then fence @ lang @ [newline]
                               else fence @ [newline]);
                 fenceEnd = [newline] @ fence @ [newline, newline]
             in buildContext_loop E fs (out4 @ fenceStart @ content @ fenceEnd)))"

definition buildContext :: "env \<Rightarrow> file_ref list \<Rightarrow> string \<Rightarrow> string" where
  "buildContext E files root_dir = buildContext_loop E files []"

subsection \<open>\<^verbatim>\<open>parseArgs\<close>\<close>

record args =
  "input" :: "string option"
  "exclude" :: "string option"
  "output" :: "string option"
  "help" :: bool
  "dryRun" :: bool
  "maxDepth" :: jsnum
  "followSymlinks" :: bool

text \<open>\<^verbatim>\<open>xs[i]\<close>, which is \<^verbatim>\<open>undefined\<close> out of range, and \<^verbatim>\<open>Number(v)\<close> of it.\<close>

definition index_opt :: "'a list \<Rightarrow> nat \<Rightarrow> 'a option" where
  "index_opt xs i = (if i < length xs then Some (xs ! i) else None)"

definition Number_of :: "(string \<Rightarrow> jsnum) \<Rightarrow> string option \<Rightarrow> jsnum" where
  "Number_of to_number v = (case v of None \<Rightarrow> NaN | Some str \<Rightarrow> to_number str)"

text \<open>
  The six \<^verbatim>\<open>if (a.startsWith('--key=')) ...\<close> statements at the end of the loop body,
  one after the other.
\<close>

definition key_value :: "(string \<Rightarrow> jsnum) \<Rightarrow> string \<Rightarrow> args \<Rightarrow> args" where
  "key_value to_number a args0 =
     (let v = index_opt (split_on CHR ''='' a) 1;
          args1 = (if startsWith a ''--input='' then args0\<lparr>input := v\<rparr> else args0);
          args2 = (if startsWith a ''--exclude='' then args1\<lparr>exclude := v\<rparr> else args1);
          args3 = (if startsWith a ''--output='' then args2\<lparr>output := v\<rparr> else args2);
          args4 = (if startsWith a ''--dry-run='' then args3\<lparr>dryRun := True\<rparr> else args3);
          args5 = (if startsWith a ''--max-depth=''
                   then args4\<lparr>maxDepth := Number_of to_number v\<rparr> else args4)
      in if startsWith a ''--follow-symlinks='' then args5\<lparr>followSymlinks := True\<rparr>
         else args5)"

text \<open>
  \<^verbatim>\<open>
  for (let i = 2; i < argv.length; i++) {
    const a = argv[i];
    if (a === '-h' || a === '--help') { args.help = true; break; }
    if (a === '-i' || a === '--input') { args.input = argv[++i]; continue; }
    if (a === '-e' || a === '--exclude') { args.exclude = argv[++i]; continue; }
    if (a === '-o' || a === '--output') { args.output = argv[++i]; continue; }
    if (a === '-d' || a === '--dry-run') { args.dryRun = true; continue; }
    if (a === '-m' || a === '--max-depth') { args.maxDepth = Number(argv[++i]); continue; }
    if (a === '-l' || a === '--follow-symlinks') { args.followSymlinks = true; continue; }
    // support --key=value
    ...
  }
  \<close>
  The loop runs over the arguments that are left; \<^verbatim>\<open>argv[++i]\<close> past the end is
  \<^verbatim>\<open>undefined\<close>, and the loop ends there.
\<close>

fun parseArgs_loop :: "(string \<Rightarrow> jsnum) \<Rightarrow> string list \<Rightarrow> args \<Rightarrow> args" where
  "parseArgs_loop to_number [] args0 = args0"
| "parseArgs_loop to_number (a # rest) args0 =
     (if a = ''-h'' \<or> a = ''--help'' then args0\<lparr>help := True\<rparr>
      else if a = ''-i'' \<or> a = ''--input'' then
        (case rest of
           [] \<Rightarrow> args0\<lparr>input := None\<rparr>
         | v # rest1 \<Rightarrow> parseArgs_loop to_number rest1 (args0\<lparr>input := Some v\<rparr>))
      else if a = ''-e'' \<or> a = ''--exclude'' then
        (case rest of
           [] \<Rightarrow> args0\<lparr>exclude := None\<rparr>
         | v # rest1 \<Rightarrow> parseArgs_loop to_number rest1 (args0\<lparr>exclude := Some v\<rparr>))
      else if a = ''-o'' \<or> a = ''--output'' then
        (case rest of
           [] \<Rightarrow> args0\<lparr>output := None\<rparr>
         | v # rest1 \<Rightarrow> parseArgs_loop to_number rest1 (args0\<lparr>output := Some v\<rparr>))
      else if a = ''-d'' \<or> a = ''--dry-run'' then
        parseArgs_loop to_number rest (args0\<lparr>dryRun := True\<rparr>)
      else if a = ''-m'' \<or> a = ''--max-depth'' then
        (case rest of
           [] \<Rightarrow> args0\<lparr>maxDepth := NaN\<rparr>
         | v # rest1 \<Rightarrow>
             parseArgs_loop to_number rest1 (args0\<lparr>maxDepth := Number_of to_number (Some v)\<rparr>))
      else if a = ''-l'' \<or> a = ''--follow-symlinks'' then
        parseArgs_loop to_number rest (args0\<lparr>followSymlinks := True\<rparr>)
      else parseArgs_loop to_number rest (key_value to_number a args0))"

definition parseArgs :: "(string \<Rightarrow> jsnum) \<Rightarrow> string list \<Rightarrow> args" where
  "parseArgs to_number argv =
     parseArgs_loop to_number (drop 2 argv)
       \<lparr>input = None, exclude = None, output = None, help = False, dryRun = False,
        maxDepth = PosInfinity, followSymlinks = False\<rparr>"

subsection \<open>\<^verbatim>\<open>main\<close>\<close>

text \<open>
  What a run leaves behind: the exit code of the process, and the calls of
  \<^verbatim>\<open>fs.promises.writeFile\<close> it made, each with the path and the content.
\<close>

record outcome =
  exit_code :: nat
  writeFile_calls :: "(string \<times> string) list"

definition DEFAULT_OUTPUT :: string where
  "DEFAULT_OUTPUT = ''context.md''"

text \<open>A value of \<^verbatim>\<open>input\<close> or \<^verbatim>\<open>output\<close> is truthy when it is a non-empty string.\<close>

definition truthy :: "string option \<Rightarrow> bool" where
  "truthy v = (case v of None \<Rightarrow> False | Some str \<Rightarrow> str \<noteq> [])"

text \<open>
  \<^verbatim>\<open>
  async function main() {
    const { input, exclude, output, help } = parseArgs(process.argv);
    if (help || !input) { usage(); process.exit(help ? 0 : 1); }
    const inputPath = path.resolve(input);
    let stats;
    try { stats = await fs.promises.stat(inputPath); }
    catch (err) { console.error(...); process.exit(2); }
    if (!stats.isDirectory()) { console.error(...); process.exit(3); }
    const excludeRegexes = compileExcludeRegexes(exclude);
    const files = await collectFiles(inputPath, excludeRegexes);
    if (!files.length) { console.error('No files found to process.'); process.exit(4); }
    const context = await buildContext(files, inputPath);
    const outPath = output ? path.resolve(output) : path.resolve(process.cwd(), DEFAULT_OUTPUT);
    try { await fs.promises.writeFile(outPath, context, 'utf8'); console.log(...); }
    catch (err) { console.error(...); process.exit(5); }
  }
  main().catch(err => { console.error('Unexpected error:', err); process.exit(1); });
  \<close>
  Of the object that \<open>parseArgs\<close> returns, \<open>main\<close> reads \<open>input\<close>, \<open>exclude\<close>,
  \<open>output\<close> and \<open>help\<close>. \<open>collectFiles\<close> is called with two arguments, so its
  \<open>maxDepth\<close> is \<^verbatim>\<open>Infinity\<close> and its \<open>followSymlinks\<close> is \<^verbatim>\<open>false\<close>. A run that
  ends without \<^verbatim>\<open>process.exit\<close> has the exit code \<open>0\<close>. The fuel is that of
  \<^const>\<open>walk\<close>.
\<close>

definition main :: "nat \<Rightarrow> env \<Rightarrow> string list \<Rightarrow> outcome option" where
  "main fuel E argv =
     (let a = parseArgs (Number E) argv
      in if help a \<or> \<not> truthy (input a)
         then Some \<lparr>exit_code = (if help a then 0 else 1), writeFile_calls = []\<rparr>
         else
           (let inputPath = path_resolve (cwd E) [case input a of Some i \<Rightarrow> i | None \<Rightarrow> []]
            in case stat E inputPath of
                 None \<Rightarrow> Some \<lparr>exit_code = 2, writeFile_calls = []\<rparr>
               | Some stats \<Rightarrow>
                   if stats \<noteq> Directory then Some \<lparr>exit_code = 3, writeFile_calls = []\<rparr>
                   else
                     (case compileExcludeRegexes (RegExp_new E) (exclude a) of
                        Inl err \<Rightarrow> Some \<lparr>exit_code = 1, writeFile_calls = []\<rparr>
                      | Inr excludeRegexes \<Rightarrow>
                          (case collectFiles fuel E inputPath excludeRegexes PosInfinity False of
                             None \<Rightarrow> None
                           | Some files \<Rightarrow>
                               if files = []
                               then Some \<lparr>exit_code = 4, writeFile_calls = []\<rparr>
                               else
                                 (let context = buildContext E files inputPath;
                                      outPath =
                                        (case output a of
                                           None \<Rightarrow> path_resolve (cwd E) [cwd E, DEFAULT_OUTPUT]
                                         | Some out \<Rightarrow>
                                             if out \<noteq> [] then path_resolve (cwd E) [out]
                                             else path_resolve (cwd E) [cwd E, DEFAULT_OUTPUT])
                                  in Some \<lparr>exit_code =
                                              (if writeFile E outPath context then 0 else 5),
                                            writeFile_calls = [(outPath, context)]\<rparr>)))))"

subsection \<open>Environments for the examples\<close>

text \<open>
  An instance of the collation for names in ASCII: the key of a name is the list of the
  codes of its characters, with every capital letter replaced by its small one, so that
  two names that differ in case only have the same key.
\<close>

definition ascii_base_key :: "string \<Rightarrow> nat list" where
  "ascii_base_key str = map (\<lambda>c. of_char (lower_char c)) str"

text \<open>
  A finite file system, given by tables: the entries of the directories, what
  \<^verbatim>\<open>stat\<close> and \<^verbatim>\<open>realpath\<close> answer for the symbolic links, and the content of
  the files. A path that is in no table fails. Every write succeeds, no pattern
  compiles (the examples exclude nothing), the working directory is \<open>/work\<close>, a buffer
  is decoded byte by byte, and the binary test is the one of
  \<^const>\<open>isLikelyBinary\<close> on the first \<open>n\<close> bytes: a buffer is binary exactly when
  it holds a NUL byte.
\<close>

definition table_env ::
  "(string \<times> dirent list) list \<Rightarrow> (string \<times> file_type) list \<Rightarrow> (string \<times> string) list
    \<Rightarrow> (string \<times> 8 word list) list \<Rightarrow> env" where
  "table_env dirs stats reals contents =
     \<lparr>readdir = map_of dirs, stat = map_of stats, realpath = map_of reals,
      readFile = map_of contents, writeFile = (\<lambda>p c. True), cwd = ''/work'',
      RegExp_new = (\<lambda>pat. None), Number = (\<lambda>str. NaN),
      localeCompare_key = ascii_base_key,
      isBinaryFileSync = (\<lambda>buffer n. isLikelyBinary (take n buffer)),
      toString_utf8 = map (\<lambda>b. char_of (unat b))\<rparr>"

subsection \<open>Paths as lists of names\<close>

text \<open>
  The vocabulary of the proofs about the traversal. A name is valid when a directory
  can hold an entry under it: it is not empty, it is neither \<open>.\<close> nor \<open>..\<close>, and
  it has no slash. \<open>render\<close> writes an absolute path from the names on it.
\<close>

definition valid_name :: "string \<Rightarrow> bool" where
  "valid_name n = (n \<noteq> [] \<and> n \<noteq> ''.'' \<and> n \<noteq> ''..'' \<and> slash \<notin> set n)"

definition render :: "string list \<Rightarrow> string" where
  "render ss = slash # join_with ''/'' ss"

text \<open>
  What the loop body of \<open>walk\<close> does with an entry: the two paths it computes, and
  which of its branches it takes (it passes over the entry, it pushes it to \<open>files\<close>,
  or it calls \<open>walk\<close> on it). \<open>walk_entries_Cons\<close> below shows that the loop is
  given by these three.
\<close>

datatype action = Skip | Emit | Descend

definition entry_action ::
  "env \<Rightarrow> string \<Rightarrow> regexp list \<Rightarrow> bool \<Rightarrow> string \<Rightarrow> string \<Rightarrow> dirent \<Rightarrow> action" where
  "entry_action E rr xs fl full_p rel_p ent =
     (if matchesAnyRegex rel_p xs \<or> matchesAnyRegex full_p xs then Skip
      else if d_type ent = Directory then Descend
      else if d_type ent = RegularFile then Emit
      else if d_type ent = SymbolicLink \<and> fl then
        (case stat E full_p of
           None \<Rightarrow> Skip
         | Some st \<Rightarrow>
             if st = Directory then
               (case realpath E full_p of
                  None \<Rightarrow> Skip
                | Some rp \<Rightarrow> if \<not> startsWith rp rr then Skip else Descend)
             else if st = RegularFile then Emit
             else Skip)
      else Skip)"

definition entry_full :: "string \<Rightarrow> dirent \<Rightarrow> string" where
  "entry_full dir ent = path_join [dir, d_name ent]"

definition entry_rel :: "env \<Rightarrow> string \<Rightarrow> string \<Rightarrow> dirent \<Rightarrow> string" where
  "entry_rel E rr dir ent =
     join_with ''/'' (split_on slash (path_relative (cwd E) rr (entry_full dir ent)))"

text \<open>
  A file reference lies under the root \<open>rs\<close> when its absolute path is the root
  followed by valid names \<open>qs\<close>, and its relative path is these names joined by
  slashes. In an environment with valid names, every \<open>readdir\<close> answers entries with
  valid names (as a file system does).
\<close>

definition lexical :: "string list \<Rightarrow> file_ref \<Rightarrow> bool" where
  "lexical rs f =
     (\<exists>qs. qs \<noteq> [] \<and> list_all valid_name qs \<and> full f = render (rs @ qs)
           \<and> rel f = join_with ''/'' qs)"

definition names_valid :: "env \<Rightarrow> bool" where
  "names_valid E =
     (\<forall>p es. readdir E p = Some es \<longrightarrow> list_all (\<lambda>e. valid_name (d_name e)) es)"

text \<open>
  The directory \<open>/data\<close> holds the symbolic link \<open>l\<close>, which leads to the directory
  \<open>/data2\<close> next to it; that directory holds the file \<open>x.txt\<close>.
\<close>

definition data_env :: env where
  "data_env = table_env
     [(''/data'', [\<lparr>d_name = ''l'', d_type = SymbolicLink\<rparr>]),
      (''/data/l'', [\<lparr>d_name = ''x.txt'', d_type = RegularFile\<rparr>])]
     [(''/data/l'', Directory)]
     [(''/data/l'', ''/data2'')]
     [(''/data/l/x.txt'', [0x68, 0x69])]"



text \<open>
  The directory \<open>/r\<close> holds the file \<open>a.txt\<close> and the directory \<open>sub\<close>, which holds
  the file \<open>b.txt\<close>; \<open>small_doc\<close> is the document with a block for each of the two.
\<close>

definition small_env :: env where
  "small_env = table_env
     [(''/r'', [\<lparr>d_name = ''sub'', d_type = Directory\<rparr>,
                \<lparr>d_name = ''a.txt'', d_type = RegularFile\<rparr>]),
      (''/r/sub'', [\<lparr>d_name = ''b.txt'', d_type = RegularFile\<rparr>])]
     [(''/r'', Directory)]
     []
     [(''/r/a.txt'', [0x68]), (''/r/sub/b.txt'', [0x69])]"

definition small_doc :: string where
  "small_doc =
     [newline, newline] @ separator_line @ [newline] @ ''FILE: /r/a.txt'' @ [newline]
       @ separator_line @ [newline, newline]
       @ replicate 3 backtick @ [newline] @ ''h'' @ [newline] @ replicate 3 backtick
       @ [newline, newline]
     @ [newline, newline] @ separator_line @ [newline] @ ''FILE: /r/sub/b.txt'' @ [newline]
       @ separator_line @ [newline, newline]
       @ replicate 3 backtick @ [newline] @ ''i'' @ [newline] @ replicate 3 backtick
       @ [newline, newline]"

text \<open>
  The directory \<open>/r\<close> holds one file, \<open>b.py\<close>, whose content starts with a NUL byte;
  the directory \<open>/e\<close> is empty.
\<close>

definition binary_env :: env where
  "binary_env = table_env
     [(''/r'', [\<lparr>d_name = ''b.py'', d_type = RegularFile\<rparr>])]
     [(''/r'', Directory)]
     []
     [(''/r/b.py'', [0x00, 0x01, 0x02])]"

definition empty_env :: env where
  "empty_env = table_env [(''/e'', [])] [(''/e'', Directory)] [] []"

text \<open>
  An environment whose binary test looks at the first 512 bytes of the buffer only, as
  the package \<^verbatim>\<open>isbinaryfile\<close> does, with a file of 512 letters \<open>a\<close> followed by a
  NUL byte.
\<close>

definition sampling_env :: env where
  "sampling_env =
     (table_env [] [] [] [(''/r/big.txt'', replicate 512 0x61 @ [0x00])])
       \<lparr>isBinaryFileSync := (\<lambda>buffer n. isLikelyBinary (take (min n 512) buffer))\<rparr>"

subsection \<open>File systems without symbolic links\<close>

text \<open>
  A tree of directories and files. A directory lists its entries by name; the order of
  the list is not the order in which \<^verbatim>\<open>readdir\<close> answers, which is left to the
  parameter \<open>order\<close> of \<open>tree_readdir\<close>: it may rearrange the entries of every
  directory as it likes. The tree hangs at the path with the names \<open>rs\<close>.
\<close>

datatype tree = File | Dir "(string \<times> tree) list"

fun kind_of :: "tree \<Rightarrow> file_type" where
  "kind_of File = RegularFile"
| "kind_of (Dir es) = Directory"

definition dirent_of :: "string \<times> tree \<Rightarrow> dirent" where
  "dirent_of e = \<lparr>d_name = fst e, d_type = kind_of (snd e)\<rparr>"

fun lookup :: "tree \<Rightarrow> string list \<Rightarrow> tree option" where
  "lookup t [] = Some t"
| "lookup File (n # ns) = None"
| "lookup (Dir es) (n # ns) = (case map_of es n of None \<Rightarrow> None | Some x \<Rightarrow> lookup x ns)"

definition tree_readdir ::
  "(string \<Rightarrow> dirent list \<Rightarrow> dirent list) \<Rightarrow> string list \<Rightarrow> tree \<Rightarrow> string \<Rightarrow> dirent list option" where
  "tree_readdir order rs t p =
     (let segs = path_segments p
      in if take (length rs) segs = rs then
           (case lookup t (drop (length rs) segs) of
              Some (Dir es) \<Rightarrow> Some (order p (map dirent_of es))
            | _ \<Rightarrow> None)
         else None)"

definition tree_env ::
  "(string \<Rightarrow> nat list) \<Rightarrow> (string \<Rightarrow> dirent list \<Rightarrow> dirent list) \<Rightarrow> string list \<Rightarrow> tree \<Rightarrow> env" where
  "tree_env key order rs t =
     (table_env [] [] [] [])\<lparr>readdir := tree_readdir order rs t, localeCompare_key := key\<rparr>"

text \<open>
  The enumeration that the specification describes: the files of the tree depth-first,
  the entries of every directory in the order of their keys (\<open>ps\<close> are the names from
  the root down to the node).
\<close>

fun sorted_listing ::
  "(string \<Rightarrow> nat list) \<Rightarrow> string list \<Rightarrow> string list \<Rightarrow> tree \<Rightarrow> file_ref list" where
  "sorted_listing key rs ps File = [\<lparr>full = render (rs @ ps), rel = join_with ''/'' ps\<rparr>]"
| "sorted_listing key rs ps (Dir es) =
     concat (map (\<lambda>e. sorted_listing key rs (ps @ [fst e]) (snd e))
               (sort_key (\<lambda>e. key (fst e)) es))"

text \<open>
  The height of a tree bounds the fuel that \<^const>\<open>walk\<close> needs on it. A tree is free
  of ties when all names in it are valid and no directory holds two entries with the
  same key (so no two with the same name either). \<open>order\<close> is permuting when it only
  rearranges what it is given.
\<close>

fun height :: "tree \<Rightarrow> nat" where
  "height File = 0"
| "height (Dir es) = Suc (foldr max (map (\<lambda>e. height (snd e)) es) 0)"

fun tie_free :: "(string \<Rightarrow> nat list) \<Rightarrow> tree \<Rightarrow> bool" where
  "tie_free key File = True"
| "tie_free key (Dir es) =
     (list_all (\<lambda>e. valid_name (fst e)) es \<and> distinct (map (\<lambda>e. key (fst e)) es)
      \<and> list_all (\<lambda>e. tie_free key (snd e)) es)"

definition permuting :: "(string \<Rightarrow> dirent list \<Rightarrow> dirent list) \<Rightarrow> bool" where
  "permuting order = (\<forall>p ds. mset (order p ds) = mset ds)"

text \<open>
  A tree with names in both cases, and a directory with two names that differ in case
  only.
\<close>

definition mixed_tree :: tree where
  "mixed_tree = Dir [(''sub'', Dir [(''c.go'', File)]), (''B.txt'', File), (''a.py'', File)]"

definition tie_tree :: tree where
  "tie_tree = Dir [(''a.txt'', File), (''A.txt'', File)]"

subsection \<open>Vocabulary of the further properties\<close>

text \<open>
  Two results of \<open>parseArgs\<close> have the same inputs when they agree on the four fields
  that \<open>main\<close> reads. \<open>emitted\<close> are the file references that the loop of \<open>walk\<close>
  pushes for the entries of one directory, without entering any.
\<close>

definition same_inputs :: "args \<Rightarrow> args \<Rightarrow> bool" where
  "same_inputs a b =
     (input a = input b \<and> exclude a = exclude b \<and> output a = output b \<and> help a = help b)"

definition emitted :: "env \<Rightarrow> string \<Rightarrow> regexp list \<Rightarrow> bool \<Rightarrow> string \<Rightarrow> dirent list \<Rightarrow> file_ref list" where
  "emitted E rr xs fl dir ents =
     map (\<lambda>ent. \<lparr>full = entry_full dir ent, rel = entry_rel E rr dir ent\<rparr>)
       (filter (\<lambda>ent. entry_action E rr xs fl (entry_full dir ent) (entry_rel E rr dir ent) ent
                        = Emit) ents)"

section \<open>Properties\<close>

subsection \<open>The fence\<close>

lemma match_backticks_Nil_iff: "match_backticks s = [] \<longleftrightarrow> backtick \<notin> set s"
  by (induction s rule: match_backticks.induct) auto

text \<open>
  Claim C2. The fence is one backtick longer than the longest run of backticks in the
  content and never shorter than three backticks. The code takes three backticks only
  when the content has no backtick at all: for the content \<open>a`b\<close>, whose longest run
  is one backtick, \<^const>\<open>fenceFor\<close> returns two backticks.
\<close>

theorem fenceFor_single_backtick:
  "fenceFor [CHR ''a'', backtick, CHR ''b''] = [backtick, backtick]
   \<and> length (fenceFor [CHR ''a'', backtick, CHR ''b'']) < 3"
  by (simp add: fenceFor_def backtick_def)

subsection \<open>Exclude patterns that do not compile\<close>

lemma split_on_absent: "c \<notin> set s \<Longrightarrow> split_on c s = [s]"
  by (induction s) auto

lemma replace_escape_no_backslash: "backslash \<notin> set s \<Longrightarrow> replace_escape s = s"
  by (induction s rule: replace_escape.induct) auto

text \<open>
  Claim C1. A pattern that does not compile is escaped and compiled again, so that it
  matches its own text and never aborts the run. The replacement of the handler changes
  nothing in a pattern without a backslash (it looks for a character of the class
  followed by two backslashes and a closing bracket), so the second
  \<^verbatim>\<open>new RegExp\<close> gets the same malformed text and throws again, this time with no
  handler around it: \<^const>\<open>compile_pattern\<close>, and with it
  \<^const>\<open>compileExcludeRegexes\<close>, ends in the exception.
\<close>

theorem compileExcludeRegexes_malformed_throws:
  assumes "backslash \<notin> set s" and "new_RegExp s = None"
    and "s \<noteq> []" and "trim s = s" and "CHR '','' \<notin> set s"
  shows "compile_pattern new_RegExp s = Inl SyntaxError
         \<and> compileExcludeRegexes new_RegExp (Some s) = Inl SyntaxError"
  using assms
  by (simp add: compile_pattern_def replace_escape_no_backslash compileExcludeRegexes_def
        split_on_absent)

theorem compileExcludeRegexes_malformed_throws_witness:
  "replace_escape ''('' = ''(''
   \<and> compile_pattern (\<lambda>s. if s = ''('' then None else Some (\<lambda>t. False)) ''('' = Inl SyntaxError
   \<and> compileExcludeRegexes (\<lambda>s. if s = ''('' then None else Some (\<lambda>t. False)) (Some ''('')
       = Inl SyntaxError"
  using compileExcludeRegexes_malformed_throws
          [of "''(''" "\<lambda>s. if s = ''('' then None else Some (\<lambda>t. False)"]
  by (simp add: backslash_def trim_def is_space_def)

subsection \<open>The language tag of a dot file\<close>

lemma extname_loop_dotfile:
  assumes "CHR ''.'' \<notin> set n" "slash \<notin> set n" "d = [] \<or> last d = slash"
    "startDot st = - 1" "preDotState st = 0" "k \<le> length n"
    "end_ix st \<noteq> - 1 \<Longrightarrow> \<not> matchedSlash st"
  shows "preDotState (extname_loop (d @ CHR ''.'' # n) (length d + 1 + k) st) = 0"
  using assms
proof (induction k arbitrary: st)
  case 0
  then show ?case
    by (cases d rule: rev_cases) (auto simp: nth_append Let_def)
next
  case (Suc k)
  have "n ! k \<in> set n" using Suc.prems by simp
  then have c: "n ! k \<noteq> CHR ''.''" "n ! k \<noteq> slash" using Suc.prems by metis+
  have ix: "(d @ CHR ''.'' # n) ! (length d + 1 + k) = n ! k"
    by (simp add: nth_append)
  let ?st1 = "if end_ix st = - 1
              then st\<lparr>end_ix := int (length d + 1 + k) + 1, matchedSlash := False\<rparr> else st"
  have step: "extname_loop (d @ CHR ''.'' # n) (length d + 1 + Suc k) st
      = extname_loop (d @ CHR ''.'' # n) (length d + 1 + k) ?st1"
    using c ix Suc.prems(4) by (simp add: Let_def)
  have "preDotState (extname_loop (d @ CHR ''.'' # n) (length d + 1 + k) ?st1) = 0"
    using Suc.prems by (intro Suc.IH) (auto split: if_splits)
  then show ?case using step by simp
qed

lemma extname_dotfile:
  assumes "CHR ''.'' \<notin> set n" "slash \<notin> set n" "d = [] \<or> last d = slash"
  shows "extname (d @ CHR ''.'' # n) = []"
proof -
  have "preDotState (extname_loop (d @ CHR ''.'' # n) (length d + 1 + length n)
     \<lparr>startDot = - 1, startPart = 0, end_ix = - 1, matchedSlash = True, preDotState = 0\<rparr>) = 0"
    using assms by (intro extname_loop_dotfile) auto
  then show ?thesis by (simp add: extname_def Let_def)
qed

lemma EXT_TO_LANG_no_empty_key: "map_of EXT_TO_LANG [] = None"
  by code_simp

lemma EXT_TO_LANG_dotfile_keys:
  "map_of EXT_TO_LANG ''.bashrc'' = Some ''bash''"
  "map_of EXT_TO_LANG ''.env'' = Some ''bash''"
  "map_of EXT_TO_LANG ''.htaccess'' = Some ''apache''"
  by code_simp+

text \<open>
  Claim C10. A file whose base name is a dot followed by characters that are neither a
  dot nor a slash (\<open>.bashrc\<close>, \<open>.env\<close>, \<open>.envrc\<close>, \<open>.zshrc\<close>, \<open>.htaccess\<close>) gets the
  empty language tag, in whatever directory \<open>d\<close> it lies: \<^verbatim>\<open>path.extname\<close> finds no
  extension in such a name, and the table has no entry for the empty string. The witness
  adds that the table does hold entries under these very names.
\<close>

theorem getLangForFile_dotfile:
  assumes "CHR ''.'' \<notin> set n" "slash \<notin> set n" "d = [] \<or> last d = slash"
  shows "getLangForFile (d @ CHR ''.'' # n) = []"
  using extname_dotfile [OF assms]
  by (simp add: getLangForFile_def toLowerCase_def EXT_TO_LANG_no_empty_key)

theorem getLangForFile_dotfile_witness:
  "getLangForFile ''/home/u/.bashrc'' = [] \<and> map_of EXT_TO_LANG ''.bashrc'' = Some ''bash''
   \<and> getLangForFile ''.env'' = [] \<and> map_of EXT_TO_LANG ''.env'' = Some ''bash''
   \<and> getLangForFile ''.htaccess'' = [] \<and> map_of EXT_TO_LANG ''.htaccess'' = Some ''apache''"
  using getLangForFile_dotfile [of "''bashrc''" "''/home/u/''"]
        getLangForFile_dotfile [of "''env''" "[]"]
        getLangForFile_dotfile [of "''htaccess''" "[]"]
        EXT_TO_LANG_dotfile_keys
  by simp

subsection \<open>Splitting, joining and normalising paths\<close>

lemma split_on_not_Nil [simp]: "split_on c s \<noteq> []"
  by (induction s) (auto split: list.splits)

lemma split_on_append: "split_on c (a @ c # b) = split_on c a @ split_on c b"
proof (induction a)
  case Nil
  show ?case by simp
next
  case (Cons x a)
  obtain p ps where "split_on c a = p # ps"
    using split_on_not_Nil [of c a] by (cases "split_on c a") auto
  with Cons show ?case by simp
qed

lemma split_on_no_sep: "s \<in> set (split_on c x) \<Longrightarrow> c \<notin> set s"
  by (induction x arbitrary: s) (auto split: if_splits list.splits)

lemma split_join:
  "ss \<noteq> [] \<Longrightarrow> list_all (\<lambda>s. slash \<notin> set s) ss \<Longrightarrow> split_on slash (join_with ''/'' ss) = ss"
proof (induction "''/''" ss rule: join_with.induct)
  case 1
  then show ?case by simp
next
  case (2 x)
  then show ?case by (simp add: split_on_absent)
next
  case (3 x y ys)
  have "split_on slash (x @ slash # join_with ''/'' (y # ys)) = split_on slash x @ split_on slash (join_with ''/'' (y # ys))"
    by (rule split_on_append)
  with 3 show ?case by (simp add: split_on_absent)
qed

lemma valid_no_slash: "list_all valid_name ss \<Longrightarrow> list_all (\<lambda>s. slash \<notin> set s) ss"
  by (induction ss) (auto simp: valid_name_def)

lemma normalize_segments_filter:
  "list_all (\<lambda>s. s = [] \<or> valid_name s) ss \<Longrightarrow>
   normalize_segments a res ss = res @ filter (\<lambda>s. s \<noteq> []) ss"
  by (induction ss arbitrary: res) (auto simp: valid_name_def)

lemma valid_or_empty: "list_all valid_name ss \<Longrightarrow> list_all (\<lambda>s. s = [] \<or> valid_name s) ss"
  by (induction ss) auto

lemma filter_valid: "list_all valid_name ss \<Longrightarrow> filter (\<lambda>s. s \<noteq> []) ss = ss"
  by (induction ss) (auto simp: valid_name_def)

lemma normalize_segments_valid:
  "list_all valid_name ss \<Longrightarrow> normalize_segments a res ss = res @ ss"
  by (simp add: normalize_segments_filter valid_or_empty filter_valid)

lemma split_render:
  "list_all valid_name ss \<Longrightarrow> split_on slash (render ss) = [] # (if ss = [] then [[]] else ss)"
  by (auto simp: render_def split_join valid_no_slash)

lemma normalize_split_render:
  "list_all valid_name ss \<Longrightarrow> list_all valid_name ts \<Longrightarrow>
   normalize_segments a [] (split_on slash (render ss) @ ts) = ss @ ts"
  by (simp add: split_render normalize_segments_valid)

lemma join_with_eq_Nil: "join_with sep ss = [] \<Longrightarrow> list_all (\<lambda>s. s = []) ss"
  by (induction sep ss rule: join_with.induct) auto

lemma join_valid_not_Nil: "ss \<noteq> [] \<Longrightarrow> list_all valid_name ss \<Longrightarrow> join_with ''/'' ss \<noteq> []"
  using join_with_eq_Nil [of "''/''" ss] by (cases ss) (auto simp: valid_name_def)

lemma path_join_render:
  assumes "list_all valid_name ss" "valid_name n"
  shows "path_join [render ss, n] = render (ss @ [n])"
proof -
  have n: "n \<noteq> []" "slash \<notin> set n" using assms(2) by (auto simp: valid_name_def)
  let ?j = "render ss @ slash # n"
  have j: "join_with ''/'' [render ss, n] = ?j" by (simp add:)
  have sp: "split_on slash ?j = split_on slash (render ss) @ [n]"
    using split_on_append [of slash "render ss" n] by (simp add: split_on_absent n)
  have ns: "normalizeString ?j False = join_with ''/'' (ss @ [n])"
    using assms by (simp add: normalizeString_def sp normalize_split_render)
  have ne: "join_with ''/'' (ss @ [n]) \<noteq> []"
    using assms by (intro join_valid_not_Nil) auto
  have hd: "hd ?j = slash" by (simp add: render_def)
  have "last ?j = last n" using n by simp
  then have la: "last ?j \<noteq> slash" using n last_in_set [of n] by metis
  have "path_normalize ?j = slash # join_with ''/'' (ss @ [n])"
    using ns ne hd la by (simp add: path_normalize_def Let_def)
  then show ?thesis using n by (simp add: path_join_def j render_def Let_def)
qed

lemma path_resolve_render:
  assumes "list_all valid_name ss"
  shows "path_resolve c [render ss] = render ss"
proof -
  have "resolve_collect [render ss, c] [] False = (render ss @ ''/'', True)"
    by (simp add: render_def)
  moreover have "split_on slash (render ss @ ''/'') = split_on slash (render ss) @ [[]]"
    using split_on_append [of slash "render ss" "[]"] by (simp add:)
  then have "normalize_segments False [] (split_on slash (render ss @ ''/'')) = ss"
    using assms by (simp add: split_render normalize_segments_filter valid_or_empty filter_valid)
  ultimately show ?thesis
    by (simp add: path_resolve_def normalizeString_def render_def)
qed

lemma path_segments_render:
  "list_all valid_name ss \<Longrightarrow> path_segments (render ss) = ss"
  by (auto simp: path_segments_def split_render filter_id_conv list_all_iff valid_name_def)

lemma drop_common_prefix: "drop_common rs (rs @ ps) = ([], ps)"
  by (induction rs) simp_all

lemma path_relative_render:
  assumes "list_all valid_name rs" "list_all valid_name ps" "ps \<noteq> []"
  shows "path_relative c (render rs) (render (rs @ ps)) = join_with ''/'' ps"
proof -
  have v: "list_all valid_name (rs @ ps)" using assms by simp
  have ne: "render rs \<noteq> render (rs @ ps)"
  proof
    assume "render rs = render (rs @ ps)"
    then have "path_segments (render rs) = path_segments (render (rs @ ps))" by simp
    then show False using assms v by (simp only: path_segments_render) simp
  qed
  show ?thesis
    using ne assms v
    by (simp add: path_relative_def path_resolve_render path_segments_render drop_common_prefix Let_def)
qed

lemma rel_render:
  assumes "list_all valid_name rs" "list_all valid_name ps" "ps \<noteq> []"
  shows "join_with ''/'' (split_on slash (path_relative c (render rs) (render (rs @ ps)))) = join_with ''/'' ps"
  using assms by (simp add: path_relative_render split_join valid_no_slash)

subsection \<open>The loop of \<open>walk\<close>, entry by entry\<close>

lemma walk_entries_Cons:
  "walk_entries n E rr xs md fl dir d (ent # ents) files =
     (case entry_action E rr xs fl (entry_full dir ent) (entry_rel E rr dir ent) ent of
        Skip \<Rightarrow> walk_entries n E rr xs md fl dir d ents files
      | Emit \<Rightarrow> walk_entries n E rr xs md fl dir d ents
                  (files @ [\<lparr>full = entry_full dir ent, rel = entry_rel E rr dir ent\<rparr>])
      | Descend \<Rightarrow>
          (case walk n E rr xs md fl (entry_full dir ent) (d + 1) files of
             None \<Rightarrow> None
           | Some files1 \<Rightarrow> walk_entries n E rr xs md fl dir d ents files1))"
  by (simp add: entry_action_def entry_full_def entry_rel_def Let_def split: option.splits)

lemmas walk_entries_simps_Cons = walk_entries.simps(2)
declare walk_entries.simps(2) [simp del]

subsection \<open>Relative paths stay under the root\<close>

lemma entry_full_render:
  assumes "list_all valid_name rs" "list_all valid_name ps" "valid_name (d_name ent)"
  shows "entry_full (render (rs @ ps)) ent = render (rs @ ps @ [d_name ent])"
  using assms path_join_render [of "rs @ ps" "d_name ent"] by (simp add: entry_full_def)

lemma entry_rel_render:
  assumes "list_all valid_name rs" "list_all valid_name ps" "valid_name (d_name ent)"
  shows "entry_rel E (render rs) (render (rs @ ps)) ent = join_with ''/'' (ps @ [d_name ent])"
  using assms rel_render [of rs "ps @ [d_name ent]" "cwd E"]
  by (simp add: entry_rel_def entry_full_render)

lemma entry_lexical:
  assumes "list_all valid_name rs" "list_all valid_name ps" "valid_name (d_name ent)"
  shows "lexical rs \<lparr>full = entry_full (render (rs @ ps)) ent,
                      rel = entry_rel E (render rs) (render (rs @ ps)) ent\<rparr>"
  unfolding lexical_def using assms
  by (intro exI [of _ "ps @ [d_name ent]"]) (simp add: entry_full_render entry_rel_render)

lemma walk_entries_lexical:
  assumes IH: "\<And>ps d acc out. list_all valid_name ps \<Longrightarrow> list_all (lexical rs) acc \<Longrightarrow>
      walk n E (render rs) xs md fl (render (rs @ ps)) d acc = Some out \<Longrightarrow>
      list_all (lexical rs) out"
    and rs: "list_all valid_name rs" and ps: "list_all valid_name ps"
  shows "list_all (\<lambda>e. valid_name (d_name e)) ents \<Longrightarrow> list_all (lexical rs) acc \<Longrightarrow>
     walk_entries n E (render rs) xs md fl (render (rs @ ps)) d ents acc = Some out \<Longrightarrow>
     list_all (lexical rs) out"
proof (induction ents arbitrary: acc)
  case Nil
  then show ?case by simp
next
  case (Cons ent ents)
  have v: "valid_name (d_name ent)" and vs: "list_all (\<lambda>e. valid_name (d_name e)) ents"
    using Cons.prems(1) by auto
  note el1 = entry_full_render [OF rs ps v]
  note el3 = entry_lexical [OF rs ps v, of E]
  show ?case
  proof (cases "entry_action E (render rs) xs fl (entry_full (render (rs @ ps)) ent)
                  (entry_rel E (render rs) (render (rs @ ps)) ent) ent")
    case Skip
    then show ?thesis using Cons.prems Cons.IH [OF vs] by (simp add: walk_entries_Cons)
  next
    case Emit
    then have "walk_entries n E (render rs) xs md fl (render (rs @ ps)) d ents
        (acc @ [\<lparr>full = entry_full (render (rs @ ps)) ent,
                  rel = entry_rel E (render rs) (render (rs @ ps)) ent\<rparr>]) = Some out"
      using Cons.prems(3) by (simp add: walk_entries_Cons)
    moreover have "list_all (lexical rs) (acc @ [\<lparr>full = entry_full (render (rs @ ps)) ent,
                  rel = entry_rel E (render rs) (render (rs @ ps)) ent\<rparr>])"
      using Cons.prems(2) el3 by simp
    ultimately show ?thesis using Cons.IH [OF vs] by blast
  next
    case Descend
    then obtain files1 where
      w: "walk n E (render rs) xs md fl (entry_full (render (rs @ ps)) ent) (d + 1) acc = Some files1"
      and r: "walk_entries n E (render rs) xs md fl (render (rs @ ps)) d ents files1 = Some out"
      using Cons.prems(3) by (auto simp: walk_entries_Cons split: option.splits)
    have "list_all valid_name (ps @ [d_name ent])" using ps v by simp
    then have "list_all (lexical rs) files1"
      using IH [of "ps @ [d_name ent]" acc "d + 1" files1] w Cons.prems(2) by (simp add: el1)
    then show ?thesis using Cons.IH [OF vs _ r] by blast
  qed
qed

lemma walk_lexical:
  assumes nv: "names_valid E" and rs: "list_all valid_name rs"
  shows "list_all valid_name ps \<Longrightarrow> list_all (lexical rs) acc \<Longrightarrow>
      walk n E (render rs) xs md fl (render (rs @ ps)) d acc = Some out \<Longrightarrow>
      list_all (lexical rs) out"
proof (induction n arbitrary: ps d acc out)
  case 0
  then show ?case by simp
next
  case (Suc n)
  show ?case
  proof (cases "depth_exceeds d md")
    case True
    then show ?thesis using Suc.prems by simp
  next
    case False
    show ?thesis
    proof (cases "readdir E (render (rs @ ps))")
      case None
      then show ?thesis using False Suc.prems by simp
    next
      case (Some entries)
      let ?sorted = "sort_key (\<lambda>ent. localeCompare_key E (d_name ent)) entries"
      have "list_all (\<lambda>e. valid_name (d_name e)) entries"
        using nv Some by (auto simp: names_valid_def)
      then have sv: "list_all (\<lambda>e. valid_name (d_name e)) ?sorted"
        by (simp add: list_all_iff)
      have we: "walk_entries n E (render rs) xs md fl (render (rs @ ps)) d ?sorted acc = Some out"
        using Suc.prems(3) False Some by simp
      show ?thesis
      proof (rule walk_entries_lexical [OF _ rs Suc.prems(1) sv Suc.prems(2) we])
        fix ps' d' acc' out'
        assume "list_all valid_name ps'" "list_all (lexical rs) acc'"
          "walk n E (render rs) xs md fl (render (rs @ ps')) d' acc' = Some out'"
        then show "list_all (lexical rs) out'" by (rule Suc.IH)
      qed
    qed
  qed
qed

lemma normalize_segments_valid_result:
  "list_all (\<lambda>s. slash \<notin> set s) ss \<Longrightarrow> list_all valid_name res \<Longrightarrow>
   list_all valid_name (normalize_segments False res ss)"
proof (induction ss arbitrary: res)
  case Nil
  then show ?case by simp
next
  case (Cons s ss)
  have ss: "list_all (\<lambda>s. slash \<notin> set s) ss" and s: "slash \<notin> set s"
    using Cons.prems(1) by auto
  have bl: "list_all valid_name (butlast res)"
    using Cons.prems(2) by (auto simp: list_all_iff dest: in_set_butlastD)
  consider "s = [] \<or> s = ''.''" | "s = ''..''" | "valid_name s"
    using s by (auto simp: valid_name_def)
  then show ?case
  proof cases
    case 1
    then show ?thesis using Cons.IH [OF ss Cons.prems(2)] by auto
  next
    case 2
    then show ?thesis using Cons.IH [OF ss Cons.prems(2)] Cons.IH [OF ss bl] by simp
  next
    case 3
    then have h: "list_all valid_name (res @ [s])" using Cons.prems(2) by simp
    have ne: "s \<noteq> []" "s \<noteq> ''.''" "s \<noteq> ''..''" using 3 by (auto simp: valid_name_def)
    show ?thesis using ne Cons.IH [OF ss h] by simp
  qed
qed

lemma split_on_all_no_sep: "list_all (\<lambda>s. c \<notin> set s) (split_on c x)"
  using split_on_no_sep [of _ c x] by (auto simp: list_all_iff)

lemma path_resolve_is_render:
  assumes "c \<noteq> []" "hd c = slash"
  shows "\<exists>rs. list_all valid_name rs \<and> path_resolve c [p] = render rs"
proof -
  have "snd (resolve_collect [p, c] [] False) = True"
    using assms by simp
  then obtain x where x: "resolve_collect [p, c] [] False = (x, True)"
    by (cases "resolve_collect [p, c] [] False") auto
  have "list_all valid_name (normalize_segments False [] (split_on slash x))"
    by (intro normalize_segments_valid_result split_on_all_no_sep) simp
  then show ?thesis
    using x by (auto simp: path_resolve_def normalizeString_def render_def)
qed

lemma join_with_append:
  "xs \<noteq> [] \<Longrightarrow> ys \<noteq> [] \<Longrightarrow> join_with sep (xs @ ys) = join_with sep xs @ sep @ join_with sep ys"
proof (induction sep xs rule: join_with.induct)
  case (1 sep)
  then show ?case by simp
next
  case (2 sep x)
  then show ?case by (cases ys) auto
next
  case (3 sep x y ys')
  then show ?case by simp
qed

lemma startsWith_append: "startsWith (p @ x) p"
  by (induction p) auto

lemma render_prefix: "startsWith (render (rs @ qs)) (render rs)"
proof (cases "rs = [] \<or> qs = []")
  case True
  then show ?thesis using startsWith_append [of "render rs" "[]"] by (auto simp: render_def)
next
  case False
  then have "render (rs @ qs) = render rs @ (''/'' @ join_with ''/'' qs)"
    by (simp add: render_def join_with_append)
  then show ?thesis by (simp only: startsWith_append)
qed

lemma names_valid_data_env: "names_valid data_env"
  by (auto simp: names_valid_def data_env_def table_env_def valid_name_def split: if_splits)

lemma data_env_paths:
  "path_resolve ''/work'' [''/data''] = ''/data''"
  "path_join [''/data'', ''l''] = ''/data/l''"
  "path_join [''/data/l'', ''x.txt''] = ''/data/l/x.txt''"
  "join_with ''/'' (split_on slash (path_relative ''/work'' ''/data'' ''/data/l'')) = ''l''"
  "join_with ''/'' (split_on slash (path_relative ''/work'' ''/data'' ''/data/l/x.txt''))
     = ''l/x.txt''"
  by code_simp+

lemma data_env_collect:
  "collectFiles 3 data_env ''/data'' [] PosInfinity True
     = Some [\<lparr>full = ''/data/l/x.txt'', rel = ''l/x.txt''\<rparr>]"
  by (simp add: collectFiles_def data_env_def table_env_def data_env_paths numeral_3_eq_3
        walk_entries_simps_Cons matchesAnyRegex_def)

text \<open>
  Claim C6. No file reference that the traversal produces has a \<open>..\<close> segment in its
  relative path, and its absolute path starts with the resolved root. It holds in every
  environment whose working directory is absolute and whose directories hold valid
  names, for every root, every list of exclude patterns, every depth limit, with or
  without following links: \<open>walk\<close> only ever joins names to the resolved root, also
  when it enters a link whose real path is elsewhere. In the witness the root is
  \<open>/data\<close> and the link \<open>l\<close> leads to \<open>/data2\<close>, which passes the prefix test: the
  file behind it is listed as \<open>l/x.txt\<close>.
\<close>

theorem collectFiles_rel_no_dotdot:
  assumes "cwd E \<noteq> []" "hd (cwd E) = slash" "names_valid E"
    and "collectFiles n E root_dir xs md fl = Some out" and "f \<in> set out"
  shows "''..'' \<notin> set (split_on slash (rel f))
         \<and> startsWith (full f) (path_resolve (cwd E) [root_dir])"
proof -
  obtain rs where rs: "list_all valid_name rs" "path_resolve (cwd E) [root_dir] = render rs"
    using path_resolve_is_render [OF assms(1,2)] by blast
  have "walk n E (render rs) xs md fl (render (rs @ [])) 0 [] = Some out"
    using assms(4) rs(2) by (simp add: collectFiles_def Let_def)
  then have "list_all (lexical rs) out"
    using walk_lexical [OF assms(3) rs(1), of "[]" "[]"] by simp
  then obtain qs where qs: "qs \<noteq> []" "list_all valid_name qs" "rel f = join_with ''/'' qs"
      "full f = render (rs @ qs)"
    using assms(5) by (auto simp: list_all_iff lexical_def)
  then have "split_on slash (rel f) = qs" by (simp add: split_join valid_no_slash)
  then have "''..'' \<notin> set (split_on slash (rel f))"
    using qs(2) by (auto simp: list_all_iff valid_name_def)
  then show ?thesis using qs(4) rs(2) render_prefix by simp
qed

theorem collectFiles_rel_no_dotdot_witness:
  "collectFiles 3 data_env ''/data'' [] PosInfinity True
     = Some [\<lparr>full = ''/data/l/x.txt'', rel = ''l/x.txt''\<rparr>]
   \<and> startsWith ''/data2'' ''/data''
   \<and> ''..'' \<notin> set (split_on slash ''l/x.txt'')
   \<and> startsWith ''/data/l/x.txt'' ''/data''"
  using collectFiles_rel_no_dotdot [OF _ _ names_valid_data_env data_env_collect,
          of "\<lparr>full = ''/data/l/x.txt'', rel = ''l/x.txt''\<rparr>"]
        data_env_collect
  by (simp add: data_env_def table_env_def)

subsection \<open>A symbolic link that leads back to the root\<close>











subsection \<open>What \<open>main\<close> does with the parsed flags\<close>

lemma small_env_paths:
  "path_resolve ''/work'' [''/r''] = ''/r''"
  "path_resolve ''/work'' [''/work'', ''context.md''] = ''/work/context.md''"
  "path_resolve ''/work'' [''/r/a.txt''] = ''/r/a.txt''"
  "path_resolve ''/work'' [''/r/sub/b.txt''] = ''/r/sub/b.txt''"
  "path_join [''/r'', ''a.txt''] = ''/r/a.txt''"
  "path_join [''/r'', ''sub''] = ''/r/sub''"
  "path_join [''/r/sub'', ''b.txt''] = ''/r/sub/b.txt''"
  "join_with ''/'' (split_on slash (path_relative ''/work'' ''/r'' ''/r/a.txt'')) = ''a.txt''"
  "join_with ''/'' (split_on slash (path_relative ''/work'' ''/r'' ''/r/sub'')) = ''sub''"
  "join_with ''/'' (split_on slash (path_relative ''/work'' ''/r'' ''/r/sub/b.txt''))
     = ''sub/b.txt''"
  by code_simp+

lemma small_env_keys: "\<not> ascii_base_key ''sub'' \<le> ascii_base_key ''a.txt''"
  by (simp add: ascii_base_key_def lower_char_def)

lemma small_env_collect:
  "collectFiles 3 (small_env\<lparr>Number := to_number\<rparr>) ''/r'' [] PosInfinity False
     = Some [\<lparr>full = ''/r/a.txt'', rel = ''a.txt''\<rparr>,
             \<lparr>full = ''/r/sub/b.txt'', rel = ''sub/b.txt''\<rparr>]"
  by (simp add: collectFiles_def small_env_def table_env_def small_env_paths small_env_keys
        numeral_3_eq_3 walk_entries_simps_Cons matchesAnyRegex_def)

lemma small_env_collect_depth_0:
  "collectFiles 3 small_env ''/r'' [] (Finite 0) False
     = Some [\<lparr>full = ''/r/a.txt'', rel = ''a.txt''\<rparr>]"
  by (simp add: collectFiles_def small_env_def table_env_def small_env_paths small_env_keys
        numeral_3_eq_3 walk_entries_simps_Cons matchesAnyRegex_def)

lemma txt_lang: "getLangForFile ''/r/a.txt'' = []" "getLangForFile ''/r/sub/b.txt'' = []"
  by code_simp+

lemma small_decode:
  "map (\<lambda>b. char_of (unat b)) [0x68::8 word] = ''h''"
  "map (\<lambda>b. char_of (unat b)) [0x69::8 word] = ''i''"
  by code_simp+

lemma small_fences: "fenceFor ''h'' = replicate 3 backtick" "fenceFor ''i'' = replicate 3 backtick"
  by (simp_all add: fenceFor_def backtick_def)

lemma small_env_doc:
  "buildContext (small_env\<lparr>Number := to_number\<rparr>)
     [\<lparr>full = ''/r/a.txt'', rel = ''a.txt''\<rparr>, \<lparr>full = ''/r/sub/b.txt'', rel = ''sub/b.txt''\<rparr>]
     ''/r'' = small_doc"
  using small_decode
  by (simp add: buildContext_def small_env_def table_env_def small_env_paths txt_lang
        small_fences small_doc_def Let_def)

lemma parse_dry_run:
  "parseArgs to_number [''node'', ''merge-to-md'', ''-i'', ''/r'', ''--dry-run'']
   = \<lparr>input = Some ''/r'', exclude = None, output = None, help = False, dryRun = True,
      maxDepth = PosInfinity, followSymlinks = False\<rparr>"
  by (simp add: parseArgs_def)

lemma parse_max_depth:
  "parseArgs to_number [''node'', ''merge-to-md'', ''-i'', ''/r'', ''--max-depth'', ''0'']
   = \<lparr>input = Some ''/r'', exclude = None, output = None, help = False, dryRun = False,
      maxDepth = to_number ''0'', followSymlinks = False\<rparr>"
  by (simp add: parseArgs_def Number_of_def)

lemma small_env_fields:
  "cwd small_env = ''/work''"
  "stat small_env ''/r'' = Some Directory"
  "RegExp_new small_env = (\<lambda>pat. None)"
  "writeFile small_env p c"
  by (simp_all add: small_env_def table_env_def)

text \<open>
  Claim C3. With \<^verbatim>\<open>--dry-run\<close> the file list is collected and reported, and the write
  step is not invoked. \<open>parseArgs\<close> does set \<open>dryRun\<close>, but \<open>main\<close> never reads it:
  on the directory of \<^const>\<open>small_env\<close> the run with \<^verbatim>\<open>--dry-run\<close> calls
  \<^verbatim>\<open>writeFile\<close> on \<open>/work/context.md\<close> with the whole document and ends with the
  exit code \<open>0\<close>, whatever \<^verbatim>\<open>Number\<close> is.
\<close>

theorem main_dry_run_writes:
  "dryRun (parseArgs to_number [''node'', ''merge-to-md'', ''-i'', ''/r'', ''--dry-run''])
   \<and> main 3 (small_env\<lparr>Number := to_number\<rparr>) [''node'', ''merge-to-md'', ''-i'', ''/r'', ''--dry-run'']
       = Some \<lparr>exit_code = 0, writeFile_calls = [(''/work/context.md'', small_doc)]\<rparr>"
  by (simp add: main_def small_env_fields parse_dry_run truthy_def small_env_paths
        compileExcludeRegexes_def small_env_collect small_env_doc Let_def DEFAULT_OUTPUT_def)

text \<open>
  Claim C4. With \<^verbatim>\<open>--max-depth 0\<close>, on a tree with one file in the root and one file
  in a subdirectory, the document holds the block of the root file only. \<open>parseArgs\<close>
  stores the number, but \<open>main\<close> calls \<open>collectFiles\<close> without it, so the depth is
  not bounded: the document written holds the blocks of both \<open>/r/a.txt\<close> and
  \<open>/r/sub/b.txt\<close>. Called with the depth \<open>0\<close>, \<open>collectFiles\<close> itself does list the
  root file only (last conjunct).
\<close>

theorem main_max_depth_0_lists_subdirectory:
  "maxDepth (parseArgs to_number [''node'', ''merge-to-md'', ''-i'', ''/r'', ''--max-depth'', ''0''])
     = to_number ''0''
   \<and> main 3 (small_env\<lparr>Number := to_number\<rparr>)
         [''node'', ''merge-to-md'', ''-i'', ''/r'', ''--max-depth'', ''0'']
       = Some \<lparr>exit_code = 0, writeFile_calls = [(''/work/context.md'', small_doc)]\<rparr>
   \<and> collectFiles 3 small_env ''/r'' [] (Finite 0) False
       = Some [\<lparr>full = ''/r/a.txt'', rel = ''a.txt''\<rparr>]"
  by (simp add: main_def small_env_fields parse_max_depth truthy_def small_env_paths
        compileExcludeRegexes_def small_env_collect small_env_doc Let_def DEFAULT_OUTPUT_def
        small_env_collect_depth_0)

subsection \<open>The exit code \<open>4\<close>\<close>

lemma isLikelyBinary_iff: "isLikelyBinary buffer \<longleftrightarrow> 0 \<in> set buffer"
  by (induction buffer) auto

lemma buildContext_loop_append:
  "buildContext_loop E (xs @ ys) out = buildContext_loop E ys (buildContext_loop E xs out)"
  by (induction xs arbitrary: out) (simp_all add: Let_def split: option.splits)

lemma binary_env_paths:
  "path_resolve ''/work'' [''/r''] = ''/r''"
  "path_resolve ''/work'' [''/work'', ''context.md''] = ''/work/context.md''"
  "path_join [''/r'', ''b.py''] = ''/r/b.py''"
  "join_with ''/'' (split_on slash (path_relative ''/work'' ''/r'' ''/r/b.py'')) = ''b.py''"
  "path_resolve ''/work'' [''/e''] = ''/e''"
  by code_simp+

lemma binary_env_collect:
  "collectFiles 2 binary_env ''/r'' [] PosInfinity False
     = Some [\<lparr>full = ''/r/b.py'', rel = ''b.py''\<rparr>]"
  by (simp add: collectFiles_def binary_env_def table_env_def binary_env_paths
        numeral_2_eq_2 walk_entries_simps_Cons matchesAnyRegex_def)

lemma binary_env_fields:
  "cwd binary_env = ''/work''"
  "stat binary_env ''/r'' = Some Directory"
  "RegExp_new binary_env = (\<lambda>pat. None)"
  "writeFile binary_env p c"
  "readFile binary_env ''/r/b.py'' = Some [0x00, 0x01, 0x02]"
  "isBinaryFileSync binary_env = (\<lambda>buffer n. isLikelyBinary (take n buffer))"
  "Number binary_env = (\<lambda>str. NaN)"
  by (simp_all add: binary_env_def table_env_def)

lemma parse_input_only:
  "parseArgs to_number [''node'', ''merge-to-md'', ''-i'', p]
   = \<lparr>input = Some p, exclude = None, output = None, help = False, dryRun = False,
      maxDepth = PosInfinity, followSymlinks = False\<rparr>"
  by (simp add: parseArgs_def)

lemma empty_env_collect: "collectFiles 2 empty_env ''/e'' [] PosInfinity False = Some []"
  by (simp add: collectFiles_def empty_env_def table_env_def binary_env_paths numeral_2_eq_2)

text \<open>
  Claim C5, as stated: whenever no eligible file is left after the exclusions and the
  binary test, the run ends with the exit code \<open>4\<close> and writes nothing. It fails on a
  tree whose only file is binary: the test on the list comes before \<open>buildContext\<close>,
  which is where binary files are dropped, so the list is not empty, and the run writes
  an empty document and ends with the exit code \<open>0\<close>.
\<close>

theorem main_all_binary_writes_empty_document:
  "isLikelyBinary [0x00, 0x01, 0x02]
   \<and> isBinaryFileSync binary_env [0x00, 0x01, 0x02] 3
   \<and> main 2 binary_env [''node'', ''merge-to-md'', ''-i'', ''/r'']
       = Some \<lparr>exit_code = 0, writeFile_calls = [(''/work/context.md'', [])]\<rparr>"
  by (simp add: main_def binary_env_fields parse_input_only truthy_def binary_env_paths
        compileExcludeRegexes_def binary_env_collect buildContext_def Let_def
        DEFAULT_OUTPUT_def)

text \<open>
  Claim C5, amended: a run that gets as far as the traversal ends with the exit code
  \<open>4\<close> and no call of \<^verbatim>\<open>writeFile\<close> exactly when \<open>collectFiles\<close> returns no file,
  that is when nothing is left after the exclusions; the binary test has no part in it.
  The witness is the empty directory.
\<close>

theorem main_exit_4_iff_no_file_collected:
  assumes "parseArgs (Number E) argv = a" and "\<not> help a" and "input a = Some i" and "i \<noteq> []"
    and "stat E (path_resolve (cwd E) [i]) = Some Directory"
    and "compileExcludeRegexes (RegExp_new E) (exclude a) = Inr rs"
    and "collectFiles n E (path_resolve (cwd E) [i]) rs PosInfinity False = Some files"
  shows "main n E argv = Some \<lparr>exit_code = 4, writeFile_calls = []\<rparr> \<longleftrightarrow> files = []"
  using assms by (simp add: main_def truthy_def Let_def)

theorem main_exit_4_iff_no_file_collected_witness:
  "collectFiles 2 empty_env ''/e'' [] PosInfinity False = Some []
   \<and> main 2 empty_env [''node'', ''merge-to-md'', ''-i'', ''/e'']
       = Some \<lparr>exit_code = 4, writeFile_calls = []\<rparr>"
  using main_exit_4_iff_no_file_collected
          [of empty_env "[''node'', ''merge-to-md'', ''-i'', ''/e'']" _ "''/e''" "[]" 2 "[]"]
        empty_env_collect
  by (simp add: parse_input_only compileExcludeRegexes_def binary_env_paths)
     (simp add: empty_env_def table_env_def binary_env_paths)

subsection \<open>Binary files\<close>

lemma sampling_lang: "getLangForFile ''/r/big.txt'' = []"
  by code_simp

lemma sampling_paths: "path_resolve ''/work'' [''/r/big.txt''] = ''/r/big.txt''"
  by code_simp

lemma sampling_chars: "char_of (97 :: nat) = CHR ''a''" "char_of (0 :: nat) = CHR 0x00"
  by code_simp+

text \<open>
  Claim C8, as stated: a file whose buffer holds a NUL byte is classified as binary and
  nothing of it is in the document. \<open>buildContext\<close> asks \<^verbatim>\<open>isBinaryFileSync\<close> of the
  package \<^verbatim>\<open>isbinaryfile\<close> and nothing else; \<^const>\<open>isLikelyBinary\<close>, which is true of
  every buffer with a NUL byte, is not called. Where the package's test passes a buffer
  with a NUL byte, as a test on the first 512 bytes does for 512 letters followed by
  NUL, the whole buffer is in the document.
\<close>

theorem buildContext_emits_buffer_with_NUL:
  "isLikelyBinary (replicate 512 0x61 @ [0x00])
   \<and> buildContext sampling_env [\<lparr>full = ''/r/big.txt'', rel = ''big.txt''\<rparr>] ''/r''
       = [newline, newline] @ separator_line @ [newline] @ ''FILE: /r/big.txt'' @ [newline]
         @ separator_line @ [newline, newline]
         @ replicate 3 backtick @ [newline]
         @ replicate 512 CHR ''a'' @ [CHR 0x00]
         @ [newline] @ replicate 3 backtick @ [newline, newline]"
proof -
  let ?content = "replicate 512 CHR ''a'' @ [CHR 0x00]"
  have c: "toString_utf8 sampling_env (replicate 512 0x61 @ [0x00]) = ?content"
    by (simp add: sampling_env_def table_env_def sampling_chars)
  have f: "fenceFor ?content = replicate 3 backtick"
    by (simp add: fenceFor_def match_backticks_Nil_iff backtick_def)
  have b: "\<not> isBinaryFileSync sampling_env (replicate 512 0x61 @ [0x00]) 513"
    by (simp add: sampling_env_def table_env_def isLikelyBinary_iff)
  have r: "readFile sampling_env ''/r/big.txt'' = Some (replicate 512 0x61 @ [0x00])"
    "cwd sampling_env = ''/work''"
    by (simp_all add: sampling_env_def table_env_def)
  show ?thesis
    using b c f
    by (simp add: buildContext_def r sampling_lang sampling_paths Let_def isLikelyBinary_iff)
qed

text \<open>
  Claim C8, amended: a file whose buffer \<^verbatim>\<open>isBinaryFileSync\<close> classifies as binary
  leaves no trace in the document, wherever it stands in the list and whatever its
  extension is. In the witness the file is \<open>b.py\<close>, whose extension has the tag
  \<open>python\<close>.
\<close>

theorem buildContext_omits_flagged_file:
  assumes "readFile E (full f) = Some buffer" and "isBinaryFileSync E buffer (length buffer)"
  shows "buildContext E (fs1 @ f # fs2) r = buildContext E (fs1 @ fs2) r"
  using assms by (simp add: buildContext_def buildContext_loop_append)

theorem buildContext_omits_flagged_file_witness:
  "isBinaryFileSync binary_env [0x00, 0x01, 0x02] 3
   \<and> map_of EXT_TO_LANG ''.py'' = Some ''python''
   \<and> buildContext binary_env [\<lparr>full = ''/r/b.py'', rel = ''b.py''\<rparr>] ''/r'' = []"
  using buildContext_omits_flagged_file
          [of binary_env "\<lparr>full = ''/r/b.py'', rel = ''b.py''\<rparr>" "[0x00, 0x01, 0x02]" "[]" "[]" "''/r''"]
  by (simp add: binary_env_fields buildContext_def) code_simp

subsection \<open>The order of the file list\<close>

lemma lookup_append:
  "lookup t (ps @ qs) = (case lookup t ps of None \<Rightarrow> None | Some s \<Rightarrow> lookup s qs)"
  by (induction t ps rule: lookup.induct) (auto split: option.splits)

lemma height_child: "e \<in> set es \<Longrightarrow> height (snd e) < height (Dir es)"
  by (induction es) (auto simp: less_Suc_eq_le max_def)

lemma distinct_keys_names: "distinct (map (\<lambda>e. key (fst e)) es) \<Longrightarrow> distinct (map fst es)"
  by (induction es) (auto simp: image_iff)

lemma sorted_dirents:
  assumes d: "distinct (map (\<lambda>e. key (fst e)) es)" and m: "mset ds = mset (map dirent_of es)"
  shows "sort_key (\<lambda>ent. key (d_name ent)) ds = map dirent_of (sort_key (\<lambda>e. key (fst e)) es)"
proof (rule sort_key_inj_key_eq)
  show "mset ds = mset (map dirent_of (sort_key (\<lambda>e. key (fst e)) es))"
    using m by simp
  have "inj_on (\<lambda>e. key (fst e)) (set es)"
    using d by (simp add: distinct_map)
  then have "inj_on (\<lambda>ent. key (d_name ent)) (dirent_of ` set es)"
    by (auto simp: inj_on_def dirent_of_def)
  moreover have "set ds = dirent_of ` set es"
    using m by (metis mset_eq_setD set_map)
  ultimately show "inj_on (\<lambda>ent. key (d_name ent)) (set ds)" by simp
  have "map (\<lambda>ent. key (d_name ent)) (map dirent_of (sort_key (\<lambda>e. key (fst e)) es))
        = map (\<lambda>e. key (fst e)) (sort_key (\<lambda>e. key (fst e)) es)"
    by (simp add: dirent_of_def comp_def)
  then show "sorted (map (\<lambda>ent. key (d_name ent)) (map dirent_of (sort_key (\<lambda>e. key (fst e)) es)))"
    by (simp only: sorted_sort_key)
qed

lemma tree_env_fields:
  "readdir (tree_env key order rs t) = tree_readdir order rs t"
  "localeCompare_key (tree_env key order rs t) = key"
  "cwd (tree_env key order rs t) = ''/work''"
  by (simp_all add: tree_env_def table_env_def)

lemma tree_readdir_render:
  assumes "list_all valid_name rs" "list_all valid_name ps" "lookup t ps = Some (Dir es)"
  shows "tree_readdir order rs t (render (rs @ ps))
           = Some (order (render (rs @ ps)) (map dirent_of es))"
  using assms by (simp add: tree_readdir_def path_segments_render)

lemma child_lookup:
  assumes "lookup t ps = Some (Dir es)" "distinct (map fst es)" "e \<in> set es"
  shows "lookup t (ps @ [fst e]) = Some (snd e)"
proof -
  have "map_of es (fst e) = Some (snd e)"
    using assms(2,3) by (intro map_of_is_SomeI) auto
  then show ?thesis using assms(1) by (simp add: lookup_append)
qed

lemma walk_entries_tree:
  assumes IH: "\<And>ps es d acc. list_all valid_name ps \<Longrightarrow> lookup t ps = Some (Dir es) \<Longrightarrow>
        tie_free key (Dir es) \<Longrightarrow> height (Dir es) \<le> n \<Longrightarrow>
        walk n (tree_env key order rs t) (render rs) xs PosInfinity fl (render (rs @ ps)) d acc
          = Some (acc @ sorted_listing key rs ps (Dir es))"
    and rs: "list_all valid_name rs" and ps: "list_all valid_name ps"
    and nomatch: "\<And>p. \<not> matchesAnyRegex p xs"
    and lk: "lookup t ps = Some (Dir es)" and tf: "tie_free key (Dir es)"
    and h: "height (Dir es) \<le> Suc n"
  shows "set zs \<subseteq> set es \<Longrightarrow>
     walk_entries n (tree_env key order rs t) (render rs) xs PosInfinity fl (render (rs @ ps)) d
       (map dirent_of zs) acc
       = Some (acc @ concat (map (\<lambda>e. sorted_listing key rs (ps @ [fst e]) (snd e)) zs))"
proof (induction zs arbitrary: acc)
  case Nil
  show ?case by simp
next
  case (Cons e zs)
  let ?E = "tree_env key order rs t"
  have e: "e \<in> set es" and zs: "set zs \<subseteq> set es" using Cons.prems by auto
  have v: "valid_name (d_name (dirent_of e))"
    using tf e by (auto simp: list_all_iff dirent_of_def)
  have dn: "distinct (map fst es)" using tf distinct_keys_names by auto
  note full = entry_full_render [OF rs ps v]
  note rel = entry_rel_render [OF rs ps v, of ?E]
  show ?case
  proof (cases "snd e")
    case File
    have act: "entry_action ?E (render rs) xs fl (entry_full (render (rs @ ps)) (dirent_of e))
                 (entry_rel ?E (render rs) (render (rs @ ps)) (dirent_of e)) (dirent_of e) = Emit"
      using File nomatch by (simp add: entry_action_def dirent_of_def)
    show ?thesis
      using act File Cons.IH [OF zs] full rel
      by (simp add: walk_entries_Cons dirent_of_def)
  next
    case (Dir cs)
    have act: "entry_action ?E (render rs) xs fl (entry_full (render (rs @ ps)) (dirent_of e))
                 (entry_rel ?E (render rs) (render (rs @ ps)) (dirent_of e)) (dirent_of e) = Descend"
      using Dir nomatch by (simp add: entry_action_def dirent_of_def)
    have lc: "lookup t (ps @ [fst e]) = Some (Dir cs)"
      using child_lookup [OF lk dn e] Dir by simp
    have "tie_free key (snd e)"
      using tf e by (auto simp: list_all_iff)
    then have tc: "tie_free key (Dir cs)"
      by (simp only: Dir)
    have hc: "height (Dir cs) \<le> n"
      using height_child [OF e] h Dir by simp
    have pv: "list_all valid_name (ps @ [fst e])"
      using ps v by (simp add: dirent_of_def)
    have w: "walk n ?E (render rs) xs PosInfinity fl (render (rs @ ps @ [fst e])) (d + 1) acc
              = Some (acc @ sorted_listing key rs (ps @ [fst e]) (Dir cs))"
      using IH [OF pv lc tc hc] by simp
    show ?thesis
      using act w Dir Cons.IH [OF zs] full
      by (simp add: walk_entries_Cons dirent_of_def)
  qed
qed

lemma walk_tree:
  assumes rs: "list_all valid_name rs" and perm: "permuting order"
    and nomatch: "\<And>p. \<not> matchesAnyRegex p xs"
  shows "list_all valid_name ps \<Longrightarrow> lookup t ps = Some (Dir es) \<Longrightarrow>
        tie_free key (Dir es) \<Longrightarrow> height (Dir es) \<le> n \<Longrightarrow>
        walk n (tree_env key order rs t) (render rs) xs PosInfinity fl (render (rs @ ps)) d acc
          = Some (acc @ sorted_listing key rs ps (Dir es))"
proof (induction n arbitrary: ps es d acc)
  case 0
  then show ?case by simp
next
  case (Suc n)
  let ?E = "tree_env key order rs t"
  let ?dir = "render (rs @ ps)"
  have rd: "readdir ?E ?dir = Some (order ?dir (map dirent_of es))"
    using tree_readdir_render [OF rs Suc.prems(1,2)] by (simp add: tree_env_fields)
  have "mset (order ?dir (map dirent_of es)) = mset (map dirent_of es)"
    using perm by (simp add: permuting_def)
  then have so: "sort_key (\<lambda>ent. key (d_name ent)) (order ?dir (map dirent_of es))
                  = map dirent_of (sort_key (\<lambda>e. key (fst e)) es)"
    using Suc.prems(3) by (intro sorted_dirents) auto
  have "walk_entries n ?E (render rs) xs PosInfinity fl ?dir d
          (map dirent_of (sort_key (\<lambda>e. key (fst e)) es)) acc
        = Some (acc @ concat (map (\<lambda>e. sorted_listing key rs (ps @ [fst e]) (snd e))
                                (sort_key (\<lambda>e. key (fst e)) es)))"
  proof (rule walk_entries_tree [OF _ rs Suc.prems(1) nomatch Suc.prems(2,3,4)])
    fix ps' es' d' acc'
    assume "list_all valid_name ps'" "lookup t ps' = Some (Dir es')" "tie_free key (Dir es')"
      "height (Dir es') \<le> n"
    then show "walk n ?E (render rs) xs PosInfinity fl (render (rs @ ps')) d' acc'
                 = Some (acc' @ sorted_listing key rs ps' (Dir es'))"
      by (rule Suc.IH)
  qed simp
  then show ?case using rd so by (simp add: tree_env_fields)
qed

lemma mixed_tree_keys:
  "ascii_base_key ''sub'' = [115, 117, 98]"
  "ascii_base_key ''B.txt'' = [98, 46, 116, 120, 116]"
  "ascii_base_key ''a.py'' = [97, 46, 112, 121]"
  "ascii_base_key ''c.go'' = [99, 46, 103, 111]"
  "ascii_base_key ''a.txt'' = [97, 46, 116, 120, 116]"
  "ascii_base_key ''A.txt'' = [97, 46, 116, 120, 116]"
  by (simp_all add: ascii_base_key_def lower_char_def)

lemma mixed_tree_listing:
  "sorted_listing ascii_base_key [''r''] [] mixed_tree
     = [\<lparr>full = ''/r/a.py'', rel = ''a.py''\<rparr>, \<lparr>full = ''/r/B.txt'', rel = ''B.txt''\<rparr>,
        \<lparr>full = ''/r/sub/c.go'', rel = ''sub/c.go''\<rparr>]"
  by (simp add: mixed_tree_def mixed_tree_keys render_def)

lemma tie_tree_paths:
  "path_resolve ''/work'' [''/r''] = ''/r''"
  "path_segments ''/r'' = [''r'']"
  "path_join [''/r'', ''a.txt''] = ''/r/a.txt''"
  "path_join [''/r'', ''A.txt''] = ''/r/A.txt''"
  "join_with ''/'' (split_on slash (path_relative ''/work'' ''/r'' ''/r/a.txt'')) = ''a.txt''"
  "join_with ''/'' (split_on slash (path_relative ''/work'' ''/r'' ''/r/A.txt'')) = ''A.txt''"
  by code_simp+

text \<open>
  Claim C9, as stated: on a tree without excluded entries and without symbolic links
  the file list is the depth-first enumeration in the order of the case-insensitive
  comparison, whatever the order in which the file system returns the entries. It fails
  where a directory holds two names that compare equal, here \<open>a.txt\<close> and \<open>A.txt\<close>: the
  sort is stable, so the two come out in the order in which \<^verbatim>\<open>readdir\<close> returned
  them, and the two orders give two different lists.
\<close>

theorem collectFiles_tie_follows_readdir_order:
  "ascii_base_key ''a.txt'' = ascii_base_key ''A.txt''
   \<and> collectFiles 1 (tree_env ascii_base_key (\<lambda>p ds. ds) [''r''] tie_tree) ''/r'' []
         PosInfinity False
       = Some [\<lparr>full = ''/r/a.txt'', rel = ''a.txt''\<rparr>, \<lparr>full = ''/r/A.txt'', rel = ''A.txt''\<rparr>]
   \<and> collectFiles 1 (tree_env ascii_base_key (\<lambda>p ds. rev ds) [''r''] tie_tree) ''/r'' []
         PosInfinity False
       = Some [\<lparr>full = ''/r/A.txt'', rel = ''A.txt''\<rparr>, \<lparr>full = ''/r/a.txt'', rel = ''a.txt''\<rparr>]"
  by (simp add: collectFiles_def tree_env_def table_env_def tree_readdir_def tie_tree_def
        tie_tree_paths mixed_tree_keys dirent_of_def walk_entries_simps_Cons matchesAnyRegex_def)

text \<open>
  Claim C9, amended: on a tree without symbolic links in which no directory holds two
  names with the same key, with exclude patterns that match nothing and no bound on the
  depth, \<open>collectFiles\<close> returns (with fuel for the height of the tree) the enumeration
  \<^const>\<open>sorted_listing\<close> of the tree, whatever the order in which \<^verbatim>\<open>readdir\<close> returns
  the entries of each directory and whether links are followed or not. In the witness
  \<^verbatim>\<open>readdir\<close> returns every directory backwards, and \<open>B.txt\<close> comes after \<open>a.py\<close>.
\<close>

theorem collectFiles_sorted_listing:
  assumes "list_all valid_name rs" and "permuting order" and "\<And>p. \<not> matchesAnyRegex p xs"
    and "tie_free key (Dir es)" and "height (Dir es) \<le> n"
  shows "collectFiles n (tree_env key order rs (Dir es)) (render rs) xs PosInfinity fl
           = Some (sorted_listing key rs [] (Dir es))"
proof -
  have "path_resolve (cwd (tree_env key order rs (Dir es))) [render rs] = render rs"
    using assms(1) by (simp add: path_resolve_render)
  then show ?thesis
    using walk_tree [OF assms(1,2,3), of "[]" "Dir es" es key n fl 0 "[]"] assms(4,5)
    by (simp add: collectFiles_def Let_def)
qed

theorem collectFiles_sorted_listing_witness:
  "collectFiles 2 (tree_env ascii_base_key (\<lambda>p ds. rev ds) [''r''] mixed_tree) ''/r'' []
      PosInfinity False
     = Some [\<lparr>full = ''/r/a.py'', rel = ''a.py''\<rparr>, \<lparr>full = ''/r/B.txt'', rel = ''B.txt''\<rparr>,
             \<lparr>full = ''/r/sub/c.go'', rel = ''sub/c.go''\<rparr>]"
  using collectFiles_sorted_listing [of "[''r'']" "\<lambda>p ds. rev ds" "[]" ascii_base_key
          "[(''sub'', Dir [(''c.go'', File)]), (''B.txt'', File), (''a.py'', File)]" 2 False]
        mixed_tree_listing
  by (simp add: mixed_tree_def valid_name_def permuting_def matchesAnyRegex_def mixed_tree_keys
        render_def)

subsection \<open>Further properties\<close>

lemma foldl_max_ge: "m \<le> foldl (\<lambda>m s. max m (length s)) m rs"
proof (induction rs arbitrary: m)
  case Nil
  show ?case by simp
next
  case (Cons a rs)
  have "m \<le> max m (length a)" by simp
  also have "\<dots> \<le> foldl (\<lambda>m s. max m (length s)) (max m (length a)) rs"
    by (rule Cons.IH)
  finally show ?case by simp
qed

lemma foldl_max_member:
  "r \<in> set rs \<Longrightarrow> length r \<le> foldl (\<lambda>m s. max m (length s)) m rs"
proof (induction rs arbitrary: m)
  case Nil
  then show ?case by simp
next
  case (Cons a rs)
  show ?case
  proof (cases "r = a")
    case True
    have "length a \<le> max m (length a)" by simp
    also have "\<dots> \<le> foldl (\<lambda>m s. max m (length s)) (max m (length a)) rs"
      by (rule foldl_max_ge)
    finally show ?thesis using True by simp
  next
    case False
    then show ?thesis using Cons by auto
  qed
qed

text \<open>
  The fence is made of backticks only, it is longer than every run of backticks in the
  content, and it has three backticks when the content has none.
\<close>

theorem fenceFor_longer_than_runs:
  "set (fenceFor content) = {backtick}
   \<and> (backtick \<in> set content \<or> length (fenceFor content) = 3)
   \<and> list_all (\<lambda>r. length r < length (fenceFor content)) (match_backticks content)"
proof (cases "match_backticks content = []")
  case True
  then have "backtick \<notin> set content" by (simp add: match_backticks_Nil_iff)
  then show ?thesis using True by (simp add: fenceFor_def)
next
  case False
  then have "backtick \<in> set content" by (simp add: match_backticks_Nil_iff)
  then show ?thesis
    using False foldl_max_member [of _ "match_backticks content" 0]
    by (auto simp: fenceFor_def Let_def list_all_iff less_Suc_eq_le)
qed

lemma walk_entries_returns:
  assumes "\<And>dir acc. \<exists>out. walk n E rr xs md fl dir (d + 1) acc = Some out"
  shows "\<exists>out. walk_entries n E rr xs md fl dir d ents acc = Some out"
proof (induction ents arbitrary: acc)
  case Nil
  show ?case by simp
next
  case (Cons ent ents)
  show ?case
  proof (cases "entry_action E rr xs fl (entry_full dir ent) (entry_rel E rr dir ent) ent")
    case Skip
    then show ?thesis using Cons.IH by (simp add: walk_entries_Cons)
  next
    case Emit
    then show ?thesis using Cons.IH by (simp add: walk_entries_Cons)
  next
    case Descend
    obtain files1 where "walk n E rr xs md fl (entry_full dir ent) (d + 1) acc = Some files1"
      using assms by blast
    then show ?thesis using Descend Cons.IH by (simp add: walk_entries_Cons)
  qed
qed

lemma walk_returns:
  "m + 1 \<le> n + d \<Longrightarrow>
   \<exists>out. walk (Suc n) E rr xs (Finite (of_nat m)) fl dir d acc = Some out"
proof (induction n arbitrary: d dir acc)
  case 0
  then show ?case by simp
next
  case (Suc n)
  have "\<exists>out. walk_entries (Suc n) E rr xs (Finite (of_nat m)) fl dir d ents acc = Some out"
    if "\<not> depth_exceeds d (Finite (of_nat m))" for ents
  proof (rule walk_entries_returns)
    fix dir' acc'
    have "m + 1 \<le> n + (d + 1)" using Suc.prems by simp
    then show "\<exists>out. walk (Suc n) E rr xs (Finite (of_nat m)) fl dir' (d + 1) acc' = Some out"
      by (rule Suc.IH)
  qed
  then show ?case by (cases "readdir E dir") auto
qed

text \<open>
  With a finite bound \<open>m\<close> on the depth the traversal returns in every environment,
  whatever the links in it: \<open>m + 2\<close> nested calls are enough.
\<close>

theorem collectFiles_bounded_depth_returns:
  "\<exists>out. collectFiles (m + 2) E root_dir xs (Finite (of_nat m)) fl = Some out"
  using walk_returns [of m "m + 1" 0] by (simp add: collectFiles_def Let_def)

lemma walk_depth_exceeded:
  "depth_exceeds d md \<Longrightarrow> walk (Suc n) E rr xs md fl dir d acc = Some acc"
  by simp

lemma walk_entries_depth_0:
  "walk_entries (Suc n) E rr xs (Finite 0) fl dir 0 ents acc
     = Some (acc @ emitted E rr xs fl dir ents)"
proof (induction ents arbitrary: acc)
  case Nil
  show ?case by (simp add: emitted_def)
next
  case (Cons ent ents)
  show ?case
    by (cases "entry_action E rr xs fl (entry_full dir ent) (entry_rel E rr dir ent) ent")
       (simp_all add: walk_entries_Cons Cons.IH emitted_def)
qed

text \<open>
  With the bound \<open>0\<close> on the depth, \<open>collectFiles\<close> reads the root directory and no
  other: the list holds the entries of the root that are files (or followed links to
  files) and are not excluded, in sorted order.
\<close>

theorem collectFiles_depth_0:
  "collectFiles (Suc (Suc n)) E root_dir xs (Finite 0) fl =
     (let resolvedRoot = path_resolve (cwd E) [root_dir]
      in case readdir E resolvedRoot of
           None \<Rightarrow> Some []
         | Some entries \<Rightarrow>
             Some (emitted E resolvedRoot xs fl resolvedRoot
                     (sort_key (\<lambda>ent. localeCompare_key E (d_name ent)) entries)))"
  by (simp add: collectFiles_def Let_def walk_entries_depth_0 split: option.splits)

lemma key_value_same_inputs:
  "same_inputs a b \<Longrightarrow> same_inputs (key_value f x a) (key_value f x b)"
  by (simp add: key_value_def same_inputs_def Let_def)

lemma parseArgs_loop_same_inputs:
  "same_inputs a b \<Longrightarrow> same_inputs (parseArgs_loop f rest a) (parseArgs_loop f rest b)"
proof (induction f rest a arbitrary: b rule: parseArgs_loop.induct)
  case (1 f a)
  then show ?case by simp
next
  case (2 f x rest a)
  have upd: "\<And>v. same_inputs (a\<lparr>input := v\<rparr>) (b\<lparr>input := v\<rparr>)"
    "\<And>v. same_inputs (a\<lparr>exclude := v\<rparr>) (b\<lparr>exclude := v\<rparr>)"
    "\<And>v. same_inputs (a\<lparr>output := v\<rparr>) (b\<lparr>output := v\<rparr>)"
    "same_inputs (a\<lparr>help := True\<rparr>) (b\<lparr>help := True\<rparr>)"
    "same_inputs (a\<lparr>dryRun := True\<rparr>) (b\<lparr>dryRun := True\<rparr>)"
    "\<And>v. same_inputs (a\<lparr>maxDepth := v\<rparr>) (b\<lparr>maxDepth := v\<rparr>)"
    "same_inputs (a\<lparr>followSymlinks := True\<rparr>) (b\<lparr>followSymlinks := True\<rparr>)"
    using "2.prems" by (simp_all add: same_inputs_def)
  show ?case
    using "2.IH" upd key_value_same_inputs [OF "2.prems"]
    by (cases rest) (simp_all add: Let_def)
qed

lemma main_same_inputs:
  assumes "same_inputs (parseArgs (Number E) argv) (parseArgs (Number E) argv')"
  shows "main fuel E argv = main fuel E argv'"
  using assms
  by (simp add: main_def same_inputs_def Let_def
        cong: option.case_cong sum.case_cong if_cong)

text \<open>
  A run of \<open>main\<close> is the same with and without \<^verbatim>\<open>--dry-run\<close>,
  \<^verbatim>\<open>--follow-symlinks\<close> or \<^verbatim>\<open>--max-depth v\<close> in front of the other arguments:
  none of the three reaches \<open>collectFiles\<close> or the write step.
\<close>

theorem main_ignores_flags:
  "main fuel E (a0 # a1 # ''--dry-run'' # rest) = main fuel E (a0 # a1 # rest)
   \<and> main fuel E (a0 # a1 # ''--follow-symlinks'' # rest) = main fuel E (a0 # a1 # rest)
   \<and> main fuel E (a0 # a1 # ''--max-depth'' # v # rest) = main fuel E (a0 # a1 # rest)"
proof -
  let ?init = "\<lparr>input = None, exclude = None, output = None, help = False, dryRun = False,
                maxDepth = PosInfinity, followSymlinks = False\<rparr>"
  have "same_inputs (parseArgs_loop (Number E) rest (?init\<lparr>dryRun := True\<rparr>))
          (parseArgs_loop (Number E) rest ?init)"
    "same_inputs (parseArgs_loop (Number E) rest (?init\<lparr>followSymlinks := True\<rparr>))
          (parseArgs_loop (Number E) rest ?init)"
    "same_inputs (parseArgs_loop (Number E) rest
                    (?init\<lparr>maxDepth := Number_of (Number E) (Some v)\<rparr>))
          (parseArgs_loop (Number E) rest ?init)"
    by (rule parseArgs_loop_same_inputs, simp add: same_inputs_def)+
  then show ?thesis
    by (intro conjI main_same_inputs) (simp_all add: parseArgs_def)
qed

end
